theory Spec2Isabelle
  imports Main "HOL-Library.Sublist" "HOL-Library.Multiset"
begin

section \<open>The Memo entity (model/Memo)\<close>

text \<open>
  \<^verbatim>\<open>class Memo { id?: number; title; content; createdDate; modifiedDate }\<close>.
  The optional \<open>id\<close> is an \<open>int option\<close> (\<open>None\<close> is \<open>undefined\<close>); the timestamps are
  integer milliseconds.
\<close>

record Memo =
  memo_id :: "int option"
  title :: string
  content :: string
  createdDate :: int
  modifiedDate :: int

text \<open>
  The constructor reads \<open>Date.now()\<close> once (\<open>now\<close>, its first argument here) and uses that
  reading for each of the two dates the caller left out (\<open>createdDate ?? now\<close>).
\<close>

definition new_Memo ::
  "int \<Rightarrow> string \<Rightarrow> string \<Rightarrow> int option \<Rightarrow> int option \<Rightarrow> int option \<Rightarrow> Memo" where
  "new_Memo now t c i cd md =
     \<lparr>memo_id = i, title = t, content = c,
      createdDate = (case cd of None \<Rightarrow> now | Some d \<Rightarrow> d),
      modifiedDate = (case md of None \<Rightarrow> now | Some d \<Rightarrow> d)\<rparr>"

section \<open>The platform: relational store, preferences, clock\<close>

text \<open>
  The code runs against three services of the host platform, none of which is code of the
  repository: \<open>@ohos.data.relationalStore\<close> (an SQLite table), \<open>@ohos.data.preferences\<close>
  (a key-value file) and \<open>Date.now()\<close>. They are modelled as one \<open>world\<close> value that every
  operation takes and returns.

  Every \<open>await\<close> of a platform call consumes one entry of \<open>script\<close>: what the call does
  (\<open>Succeeds\<close>, \<open>Throws\<close>, or \<open>Falsy\<close>: it returns a falsy value where the caller tests
  for one, and succeeds elsewhere) and how many milliseconds pass while it runs. An
  exhausted script means: the call succeeds at once. So a theorem about every \<open>world\<close> is
  a theorem about every pattern of platform faults, and the clock never runs backwards
  during an operation.
\<close>

datatype outcome = Succeeds | Throws | Falsy

datatype error = BusinessError | FailedToGetRdbStore | FailedToGetPreferences

text \<open>A row of table \<open>memo\<close>: \<open>(id, title, content, created_date, modified_date)\<close>.\<close>

record row =
  rid :: int
  r_title :: string
  r_content :: string
  created_date :: int
  modified_date :: int

record world =
  rdbStore :: "nat option"
  prefInstance :: "nat option"
  memo_table :: "row list"
  sqlite_sequence :: int
  pref_store :: "string \<Rightarrow> int option"
  clock :: int
  script :: "(outcome \<times> nat) list"
  opens :: nat
  pref_opens :: nat
  cursors_opened :: nat
  cursors_closed :: nat

text \<open>
  \<open>rdbStore\<close> and \<open>prefInstance\<close> are the private fields of the two singletons
  \<open>rdbHelper\<close> and \<open>preferencesHelper\<close>; \<open>memo_table\<close> holds the rows in rowid order;
  \<open>opens\<close> and \<open>pref_opens\<close> count the open calls issued to the platform,
  \<open>cursors_opened\<close> the result sets handed out by \<open>store.query\<close> and \<open>cursors_closed\<close>
  the calls of \<open>resultSet.close()\<close>.
\<close>

definition platform_call :: "world \<Rightarrow> outcome \<times> world" where
  "platform_call w =
     (case script w of
        [] \<Rightarrow> (Succeeds, w)
      | (oc, dt) # rest \<Rightarrow> (oc, w\<lparr>script := rest, clock := clock w + int dt\<rparr>))"

definition fault_free :: "world \<Rightarrow> bool" where
  "fault_free w = list_all (\<lambda>e. fst e = Succeeds) (script w)"

subsection \<open>RdbHelper.getRdbStore\<close>

text \<open>
  The method in two halves, split at its only \<open>await\<close>. \<open>getRdbStore_enter\<close> runs to
  the await: it returns the memoised store, or issues \<open>relationalStore.getRdbStore\<close>.
  \<open>getRdbStore_resume\<close> is the continuation: the open threw (the method throws a new
  \<open>Error\<close>), or it produced a store, which is assigned to the field and returned. Each
  successful open yields a new store object, numbered by the open that made it.
\<close>

definition getRdbStore_enter :: "world \<Rightarrow> nat option \<times> world" where
  "getRdbStore_enter w =
     (case rdbStore w of
        Some h \<Rightarrow> (Some h, w)
      | None \<Rightarrow> (None, w\<lparr>opens := opens w + 1\<rparr>))"

definition getRdbStore_resume :: "nat \<Rightarrow> world \<Rightarrow> (error + nat) \<times> world" where
  "getRdbStore_resume h w =
     (case platform_call w of
        (Throws, w1) \<Rightarrow> (Inl FailedToGetRdbStore, w1)
      | (_, w1) \<Rightarrow> (Inr h, w1\<lparr>rdbStore := Some h\<rparr>))"

definition getRdbStore :: "world \<Rightarrow> (error + nat) \<times> world" where
  "getRdbStore w =
     (case getRdbStore_enter w of
        (Some h, w1) \<Rightarrow> (Inr h, w1)
      | (None, w1) \<Rightarrow> getRdbStore_resume (opens w1) w1)"

subsection \<open>The store's statements\<close>

text \<open>
  \<open>AUTOINCREMENT\<close>: the new rowid is one more than the largest rowid the table has or
  ever had (\<open>sqlite_sequence\<close>).
\<close>

definition next_rowid :: "world \<Rightarrow> int" where
  "next_rowid w = fold max (map rid (memo_table w)) (sqlite_sequence w) + 1"

definition store_insert ::
  "world \<Rightarrow> string \<times> string \<times> int \<times> int \<Rightarrow> (error + int) \<times> world" where
  "store_insert w vb =
     (case platform_call w of
        (Throws, w1) \<Rightarrow> (Inl BusinessError, w1)
      | (_, w1) \<Rightarrow>
          (case vb of (t, c, cd, md) \<Rightarrow>
             let i = next_rowid w1 in
             (Inr i, w1\<lparr>memo_table := memo_table w1 @
                  [\<lparr>rid = i, r_title = t, r_content = c, created_date = cd, modified_date = md\<rparr>],
                sqlite_sequence := i\<rparr>)))"

text \<open>
  The predicates the repository builds: at most one condition on a column and the optional
  \<open>orderByDesc('modified_date')\<close>. \<open>LIKE\<close> is SQLite's: \<open>%\<close> matches any sequence of
  characters, \<open>_\<close> any single character, and letters of ASCII match without regard to
  case (the repository's own comment calls the search case-insensitive).
\<close>

datatype condition = EqualTo_id int | Like_title string

record predicates =
  cond :: "condition option"
  orderByDesc_modified_date :: bool

definition ascii_lower :: "char \<Rightarrow> char" where
  "ascii_lower c =
     (if 65 \<le> (of_char c :: nat) \<and> (of_char c :: nat) \<le> 90
      then char_of ((of_char c :: nat) + 32) else c)"

fun like_match :: "string \<Rightarrow> string \<Rightarrow> bool" where
  "like_match [] t = (t = [])"
| "like_match (p # ps) [] = (p = CHR ''%'' \<and> like_match ps [])"
| "like_match (p # ps) (c # cs) =
     (if p = CHR ''%'' then like_match ps (c # cs) \<or> like_match (p # ps) cs
      else (p = CHR ''_'' \<or> ascii_lower p = ascii_lower c) \<and> like_match ps cs)"

fun satisfies :: "condition option \<Rightarrow> row \<Rightarrow> bool" where
  "satisfies None r = True"
| "satisfies (Some (EqualTo_id i)) r = (rid r = i)"
| "satisfies (Some (Like_title pat)) r = like_match pat (r_title r)"

definition select_rows :: "predicates \<Rightarrow> row list \<Rightarrow> row list" where
  "select_rows p rows =
     (let hits = filter (satisfies (cond p)) rows in
      if orderByDesc_modified_date p then sort_key (\<lambda>r. - modified_date r) hits else hits)"

text \<open>
  \<open>store.query\<close> throws, or returns no result set (\<open>None\<close>; the code tests
  \<open>!resultSet\<close>), or hands out a result set: the selected rows.
\<close>

definition store_query :: "world \<Rightarrow> predicates \<Rightarrow> (error + row list option) \<times> world" where
  "store_query w p =
     (case platform_call w of
        (Throws, w1) \<Rightarrow> (Inl BusinessError, w1)
      | (Falsy, w1) \<Rightarrow> (Inr None, w1)
      | (Succeeds, w1) \<Rightarrow>
          (Inr (Some (select_rows p (memo_table w1))),
           w1\<lparr>cursors_opened := cursors_opened w1 + 1\<rparr>))"

definition store_update ::
  "world \<Rightarrow> string \<times> string \<times> int \<Rightarrow> int \<Rightarrow> (error + int) \<times> world" where
  "store_update w vb i =
     (case platform_call w of
        (Throws, w1) \<Rightarrow> (Inl BusinessError, w1)
      | (_, w1) \<Rightarrow>
          (case vb of (t, c, md) \<Rightarrow>
             (Inr (int (length (filter (\<lambda>r. rid r = i) (memo_table w1)))),
              w1\<lparr>memo_table :=
                    map (\<lambda>r. if rid r = i
                              then r\<lparr>r_title := t, r_content := c, modified_date := md\<rparr>
                              else r) (memo_table w1)\<rparr>)))"

definition store_delete :: "world \<Rightarrow> int \<Rightarrow> (error + int) \<times> world" where
  "store_delete w i =
     (case platform_call w of
        (Throws, w1) \<Rightarrow> (Inl BusinessError, w1)
      | (_, w1) \<Rightarrow>
          (Inr (int (length (filter (\<lambda>r. rid r = i) (memo_table w1)))),
           w1\<lparr>memo_table := filter (\<lambda>r. rid r \<noteq> i) (memo_table w1)\<rparr>))"

subsection \<open>Result sets\<close>

text \<open>
  \<open>goToFirstRow\<close> throws, returns false, or returns true. Reading the five columns of the
  current row is one platform step that throws or yields the Memo built from the row (the
  constructor's own \<open>Date.now()\<close> is read and, both dates being given, not used).
  \<open>close\<close> is counted when it is called, whether or not it then throws.
\<close>

definition goToFirstRow :: "world \<Rightarrow> (error + bool) \<times> world" where
  "goToFirstRow w =
     (case platform_call w of
        (Throws, w1) \<Rightarrow> (Inl BusinessError, w1)
      | (Falsy, w1) \<Rightarrow> (Inr False, w1)
      | (Succeeds, w1) \<Rightarrow> (Inr True, w1))"

definition read_row :: "world \<Rightarrow> row \<Rightarrow> (error + Memo) \<times> world" where
  "read_row w r =
     (case platform_call w of
        (Throws, w1) \<Rightarrow> (Inl BusinessError, w1)
      | (_, w1) \<Rightarrow>
          (Inr (new_Memo (clock w1) (r_title r) (r_content r) (Some (rid r))
                  (Some (created_date r)) (Some (modified_date r))), w1))"

definition resultSet_close :: "world \<Rightarrow> (error + unit) \<times> world" where
  "resultSet_close w =
     (case platform_call (w\<lparr>cursors_closed := cursors_closed w + 1\<rparr>) of
        (Throws, w1) \<Rightarrow> (Inl BusinessError, w1)
      | (_, w1) \<Rightarrow> (Inr (), w1))"

section \<open>MemoDao\<close>

text \<open>
  Every method returns \<open>Inl e\<close> when the source lets an error escape to its caller (a
  rejected promise) and \<open>Inr v\<close> when it resolves with \<open>v\<close>. In each method
  \<open>await rdbHelper.getRdbStore(context)\<close> stands before the \<open>try\<close>.
\<close>

definition addMemo :: "world \<Rightarrow> Memo \<Rightarrow> (error + int) \<times> world" where
  "addMemo w memo =
     (case getRdbStore w of
        (Inl e, w1) \<Rightarrow> (Inl e, w1)
      | (Inr store, w1) \<Rightarrow>
          (case store_insert w1 (title memo, content memo, createdDate memo, modifiedDate memo) of
             (Inr rowId, w2) \<Rightarrow> (Inr rowId, w2)
           | (Inl e, w2) \<Rightarrow> (Inr (- 1), w2)))"

text \<open>
  \<open>parseResultSet\<close>: the do-while loop over the rows is \<open>read_rows\<close>, the body of
  the \<open>try\<close> block with its \<open>catch\<close> is \<open>parse_rows\<close>; an error thrown while a row
  is read is caught and the Memos pushed so far are returned; the \<open>finally\<close> block
  closes the result set on every path that passed the null test.
\<close>

fun read_rows :: "world \<Rightarrow> row list \<Rightarrow> Memo list \<Rightarrow> Memo list \<times> world" where
  "read_rows w [] memos = (memos, w)"
| "read_rows w (r # rs) memos =
     (case read_row w r of
        (Inl e, w1) \<Rightarrow> (memos, w1)
      | (Inr memo, w1) \<Rightarrow> read_rows w1 rs (memos @ [memo]))"

definition parse_rows :: "world \<Rightarrow> row list \<Rightarrow> Memo list \<times> world" where
  "parse_rows w rs =
     (if rs = [] then ([], w)
      else (case goToFirstRow w of
              (Inl e, w1) \<Rightarrow> ([], w1)
            | (Inr False, w1) \<Rightarrow> ([], w1)
            | (Inr True, w1) \<Rightarrow> read_rows w1 rs []))"

definition parseResultSet :: "world \<Rightarrow> row list option \<Rightarrow> Memo list \<times> world" where
  "parseResultSet w resultSet =
     (case resultSet of
        None \<Rightarrow> ([], w)
      | Some rs \<Rightarrow>
          (case parse_rows w rs of (memos, w2) \<Rightarrow> (memos, snd (resultSet_close w2))))"

definition queryAllMemos :: "world \<Rightarrow> (error + Memo list) \<times> world" where
  "queryAllMemos w =
     (case getRdbStore w of
        (Inl e, w1) \<Rightarrow> (Inl e, w1)
      | (Inr store, w1) \<Rightarrow>
          (case store_query w1 \<lparr>cond = None, orderByDesc_modified_date = True\<rparr> of
             (Inl e, w2) \<Rightarrow> (Inr [], w2)
           | (Inr resultSet, w2) \<Rightarrow>
               (case parseResultSet w2 resultSet of (memos, w3) \<Rightarrow> (Inr memos, w3))))"

definition queryMemosByTitle :: "world \<Rightarrow> string \<Rightarrow> (error + Memo list) \<times> world" where
  "queryMemosByTitle w keyword =
     (if keyword = [] then queryAllMemos w
      else
        (case getRdbStore w of
           (Inl e, w1) \<Rightarrow> (Inl e, w1)
         | (Inr store, w1) \<Rightarrow>
             (case store_query w1
                     \<lparr>cond = Some (Like_title (CHR ''%'' # keyword @ [CHR ''%''])),
                      orderByDesc_modified_date = True\<rparr> of
                (Inl e, w2) \<Rightarrow> (Inr [], w2)
              | (Inr resultSet, w2) \<Rightarrow>
                  (case parseResultSet w2 resultSet of (memos, w3) \<Rightarrow> (Inr memos, w3)))))"

text \<open>
  \<open>updateMemo\<close>: without an id it returns 0 before it asks for the store. The new
  \<open>modified_date\<close> is \<open>Date.now()\<close>, read after the store has been obtained; the
  \<open>createdDate\<close> and \<open>modifiedDate\<close> of the argument are not read.
\<close>

definition updateMemo :: "world \<Rightarrow> Memo \<Rightarrow> (error + int) \<times> world" where
  "updateMemo w memo =
     (case memo_id memo of
        None \<Rightarrow> (Inr 0, w)
      | Some i \<Rightarrow>
          (case getRdbStore w of
             (Inl e, w1) \<Rightarrow> (Inl e, w1)
           | (Inr store, w1) \<Rightarrow>
               (case store_update w1 (title memo, content memo, clock w1) i of
                  (Inr affectedRows, w2) \<Rightarrow> (Inr affectedRows, w2)
                | (Inl e, w2) \<Rightarrow> (Inr 0, w2))))"

definition deleteMemo :: "world \<Rightarrow> int \<Rightarrow> (error + int) \<times> world" where
  "deleteMemo w i =
     (case getRdbStore w of
        (Inl e, w1) \<Rightarrow> (Inl e, w1)
      | (Inr store, w1) \<Rightarrow>
          (case store_delete w1 i of
             (Inr affectedRows, w2) \<Rightarrow> (Inr affectedRows, w2)
           | (Inl e, w2) \<Rightarrow> (Inr 0, w2)))"

text \<open>
  \<open>queryMemoById\<close>: \<open>first_row\<close> is the body of the \<open>try\<close> block after the query,
  with its \<open>catch\<close> (the test \<open>resultSet.rowCount > 0 && resultSet.goToFirstRow()\<close>, then
  the row is read); the \<open>finally\<close> block closes the result set whenever the variable
  holds one, that is whenever \<open>store.query\<close> returned one.
\<close>

definition first_row :: "world \<Rightarrow> row list \<Rightarrow> Memo option \<times> world" where
  "first_row w rs =
     (case rs of
        [] \<Rightarrow> (None, w)
      | r # rest \<Rightarrow>
          (case goToFirstRow w of
             (Inl e, w1) \<Rightarrow> (None, w1)
           | (Inr False, w1) \<Rightarrow> (None, w1)
           | (Inr True, w1) \<Rightarrow>
               (case read_row w1 r of
                  (Inl e, w2) \<Rightarrow> (None, w2)
                | (Inr memo, w2) \<Rightarrow> (Some memo, w2))))"

definition queryMemoById :: "world \<Rightarrow> int \<Rightarrow> (error + Memo option) \<times> world" where
  "queryMemoById w i =
     (case getRdbStore w of
        (Inl e, w1) \<Rightarrow> (Inl e, w1)
      | (Inr store, w1) \<Rightarrow>
          (case store_query w1 \<lparr>cond = Some (EqualTo_id i), orderByDesc_modified_date = False\<rparr> of
             (Inl e, w2) \<Rightarrow> (Inr None, w2)
           | (Inr None, w2) \<Rightarrow> (Inr None, w2)
           | (Inr (Some rs), w2) \<Rightarrow>
               (case first_row w2 rs of
                  (found, w3) \<Rightarrow> (Inr found, snd (resultSet_close w3)))))"

section \<open>PreferencesHelper\<close>

text \<open>
  \<open>getPreferences\<close> is private: its callers are \<open>saveFontSizes\<close> and \<open>loadFontSizes\<close>,
  and both call it inside their \<open>try\<close> block. Like \<open>getRdbStore\<close> it is given in two
  halves, split at its only \<open>await\<close>: \<open>getPreferences_enter\<close> returns the memoised
  instance or issues \<open>preferences.getPreferences\<close>; \<open>getPreferences_resume\<close> is the
  continuation, which throws a new \<open>Error\<close> when the open threw and otherwise assigns the
  instance to the field and returns it.
\<close>

definition getPreferences_enter :: "world \<Rightarrow> nat option \<times> world" where
  "getPreferences_enter w =
     (case prefInstance w of
        Some p \<Rightarrow> (Some p, w)
      | None \<Rightarrow> (None, w\<lparr>pref_opens := pref_opens w + 1\<rparr>))"

definition getPreferences_resume :: "nat \<Rightarrow> world \<Rightarrow> (error + nat) \<times> world" where
  "getPreferences_resume p w =
     (case platform_call w of
        (Throws, w1) \<Rightarrow> (Inl FailedToGetPreferences, w1)
      | (_, w1) \<Rightarrow> (Inr p, w1\<lparr>prefInstance := Some p\<rparr>))"

definition getPreferences :: "world \<Rightarrow> (error + nat) \<times> world" where
  "getPreferences w =
     (case getPreferences_enter w of
        (Some p, w1) \<Rightarrow> (Inr p, w1)
      | (None, w1) \<Rightarrow> getPreferences_resume (pref_opens w1) w1)"

definition prefs_put :: "world \<Rightarrow> string \<Rightarrow> int \<Rightarrow> (error + unit) \<times> world" where
  "prefs_put w k v =
     (case platform_call w of
        (Throws, w1) \<Rightarrow> (Inl BusinessError, w1)
      | (_, w1) \<Rightarrow> (Inr (), w1\<lparr>pref_store := (pref_store w1)(k \<mapsto> v)\<rparr>))"

definition prefs_get :: "world \<Rightarrow> string \<Rightarrow> int \<Rightarrow> (error + int) \<times> world" where
  "prefs_get w k d =
     (case platform_call w of
        (Throws, w1) \<Rightarrow> (Inl BusinessError, w1)
      | (_, w1) \<Rightarrow> (Inr (case pref_store w1 k of None \<Rightarrow> d | Some v \<Rightarrow> v), w1))"

definition prefs_flush :: "world \<Rightarrow> (error + unit) \<times> world" where
  "prefs_flush w =
     (case platform_call w of
        (Throws, w1) \<Rightarrow> (Inl BusinessError, w1)
      | (_, w1) \<Rightarrow> (Inr (), w1))"

definition KEY_TITLE_FONT_SIZE :: string where
  "KEY_TITLE_FONT_SIZE = ''title_font_size''"

definition KEY_CONTENT_FONT_SIZE :: string where
  "KEY_CONTENT_FONT_SIZE = ''content_font_size''"

definition DEFAULT_TITLE_FONT_SIZE :: int where
  "DEFAULT_TITLE_FONT_SIZE = 18"

definition DEFAULT_CONTENT_FONT_SIZE :: int where
  "DEFAULT_CONTENT_FONT_SIZE = 14"

text \<open>The \<open>catch\<close> of \<open>saveFontSizes\<close> logs and returns: every \<open>Inl\<close> becomes \<open>Inr ()\<close>.\<close>

definition saveFontSizes :: "world \<Rightarrow> int \<Rightarrow> int \<Rightarrow> (error + unit) \<times> world" where
  "saveFontSizes w titleSize contentSize =
     (case getPreferences w of
        (Inl e, w1) \<Rightarrow> (Inr (), w1)
      | (Inr prefs, w1) \<Rightarrow>
          (case prefs_put w1 KEY_TITLE_FONT_SIZE titleSize of
             (Inl e, w2) \<Rightarrow> (Inr (), w2)
           | (Inr u, w2) \<Rightarrow>
               (case prefs_put w2 KEY_CONTENT_FONT_SIZE contentSize of
                  (Inl e, w3) \<Rightarrow> (Inr (), w3)
                | (Inr u', w3) \<Rightarrow>
                    (case prefs_flush w3 of (r, w4) \<Rightarrow> (Inr (), w4)))))"

text \<open>
  \<open>loadFontSizes\<close> starts from the defaults and overwrites each variable when its
  \<open>get\<close> returns; an error leaves the variables as they are at that moment.
\<close>

definition loadFontSizes :: "world \<Rightarrow> (error + int \<times> int) \<times> world" where
  "loadFontSizes w =
     (case getPreferences w of
        (Inl e, w1) \<Rightarrow> (Inr (DEFAULT_TITLE_FONT_SIZE, DEFAULT_CONTENT_FONT_SIZE), w1)
      | (Inr prefs, w1) \<Rightarrow>
          (case prefs_get w1 KEY_TITLE_FONT_SIZE DEFAULT_TITLE_FONT_SIZE of
             (Inl e, w2) \<Rightarrow> (Inr (DEFAULT_TITLE_FONT_SIZE, DEFAULT_CONTENT_FONT_SIZE), w2)
           | (Inr titleSize, w2) \<Rightarrow>
               (case prefs_get w2 KEY_CONTENT_FONT_SIZE DEFAULT_CONTENT_FONT_SIZE of
                  (Inl e, w3) \<Rightarrow> (Inr (titleSize, DEFAULT_CONTENT_FONT_SIZE), w3)
                | (Inr contentSize, w3) \<Rightarrow> (Inr (titleSize, contentSize), w3))))"

section \<open>MemoViewModel\<close>

record MemoViewModel =
  memos :: "Memo list"
  titleFontSize :: int
  contentFontSize :: int
  isLoading :: bool
  searchKeyword :: string
  currentMemo :: "Memo option"
  vm_context :: "nat option"

definition new_MemoViewModel :: MemoViewModel where
  "new_MemoViewModel =
     \<lparr>memos = [], titleFontSize = 18, contentFontSize = 14, isLoading = False,
      searchKeyword = [], currentMemo = None, vm_context = None\<rparr>"

definition initialize :: "MemoViewModel \<Rightarrow> nat \<Rightarrow> MemoViewModel" where
  "initialize vm ctx = vm\<lparr>vm_context := Some ctx\<rparr>"

text \<open>
  \<open>String.prototype.trim\<close> strips from both ends the code units that are WhiteSpace or
  LineTerminator in ECMAScript. A \<open>char\<close> stands for a code unit from U+0000 to U+00FF,
  and in that range these are exactly seven: tab, line feed, vertical tab, form feed,
  carriage return, space and the no-break space U+00A0. (The others, U+1680,
  U+2000 to U+200A, U+2028, U+2029, U+202F, U+205F, U+3000 and U+FEFF, lie above U+00FF
  and are no values of \<open>char\<close>.)
\<close>

definition is_space :: "char \<Rightarrow> bool" where
  "is_space c =
     (c \<in> set [CHR 0x09, CHR 0x0A, CHR 0x0B, CHR 0x0C, CHR 0x0D, CHR 0x20, CHR 0xA0])"

definition trim :: "string \<Rightarrow> string" where
  "trim s = rev (dropWhile is_space (rev (dropWhile is_space s)))"

definition searchMemos :: "MemoViewModel \<Rightarrow> string \<Rightarrow> world \<Rightarrow> MemoViewModel \<times> world" where
  "searchMemos vm keyword w =
     (case vm_context vm of
        None \<Rightarrow> (vm, w)
      | Some ctx \<Rightarrow>
          (let vm1 = vm\<lparr>isLoading := True, searchKeyword := trim keyword\<rparr> in
           case queryMemosByTitle w (searchKeyword vm1) of
             (Inr found, w1) \<Rightarrow> (vm1\<lparr>memos := found, isLoading := False\<rparr>, w1)
           | (Inl e, w1) \<Rightarrow> (vm1\<lparr>memos := [], isLoading := False\<rparr>, w1)))"

definition vm_loadFontSizes :: "MemoViewModel \<Rightarrow> world \<Rightarrow> MemoViewModel \<times> world" where
  "vm_loadFontSizes vm w =
     (case vm_context vm of
        None \<Rightarrow> (vm, w)
      | Some ctx \<Rightarrow>
          (case loadFontSizes w of
             (Inr (titleSize, contentSize), w1) \<Rightarrow>
               (vm\<lparr>titleFontSize := titleSize, contentFontSize := contentSize\<rparr>, w1)
           | (Inl e, w1) \<Rightarrow> (vm, w1)))"

definition vm_saveFontSizes :: "MemoViewModel \<Rightarrow> world \<Rightarrow> MemoViewModel \<times> world" where
  "vm_saveFontSizes vm w =
     (case vm_context vm of
        None \<Rightarrow> (vm, w)
      | Some ctx \<Rightarrow>
          (case saveFontSizes w (titleFontSize vm) (contentFontSize vm) of (r, w1) \<Rightarrow> (vm, w1)))"

definition loadInitialData :: "MemoViewModel \<Rightarrow> world \<Rightarrow> MemoViewModel \<times> world" where
  "loadInitialData vm w =
     (case vm_context vm of
        None \<Rightarrow> (vm, w)
      | Some ctx \<Rightarrow>
          (case vm_loadFontSizes (vm\<lparr>isLoading := True\<rparr>) w of
             (vm1, w1) \<Rightarrow>
               (case searchMemos vm1 (searchKeyword vm1) w1 of
                  (vm2, w2) \<Rightarrow> (vm2\<lparr>isLoading := False\<rparr>, w2))))"

definition loadMemoById :: "MemoViewModel \<Rightarrow> int \<Rightarrow> world \<Rightarrow> MemoViewModel \<times> world" where
  "loadMemoById vm i w =
     (case vm_context vm of
        None \<Rightarrow> (vm, w)
      | Some ctx \<Rightarrow>
          (let vm1 = vm\<lparr>isLoading := True\<rparr> in
           case queryMemoById w i of
             (Inr found, w1) \<Rightarrow> (vm1\<lparr>currentMemo := found, isLoading := False\<rparr>, w1)
           | (Inl e, w1) \<Rightarrow> (vm1\<lparr>currentMemo := None, isLoading := False\<rparr>, w1)))"

definition prepareNewMemo :: "MemoViewModel \<Rightarrow> MemoViewModel" where
  "prepareNewMemo vm = vm\<lparr>currentMemo := None\<rparr>"

text \<open>
  \<open>saveCurrentMemo\<close>. The test \<open>this.currentMemo && this.currentMemo.id !== undefined\<close>
  is \<open>edit_target\<close>. \<open>refresh_if\<close> is the end of the \<open>try\<close> block (\<open>if (success) await
  this.searchMemos(this.searchKeyword)\<close>) followed by the \<open>finally\<close> block. An error
  that escapes the repository is caught: \<open>success = false\<close>.
\<close>

definition edit_target :: "MemoViewModel \<Rightarrow> (int \<times> Memo) option" where
  "edit_target vm =
     (case currentMemo vm of
        None \<Rightarrow> None
      | Some cm \<Rightarrow> (case memo_id cm of None \<Rightarrow> None | Some i \<Rightarrow> Some (i, cm)))"

definition refresh_if :: "bool \<Rightarrow> MemoViewModel \<Rightarrow> world \<Rightarrow> bool \<times> MemoViewModel \<times> world" where
  "refresh_if success vm w =
     (if success
      then (case searchMemos vm (searchKeyword vm) w of
              (vm1, w1) \<Rightarrow> (True, vm1\<lparr>isLoading := False\<rparr>, w1))
      else (False, vm\<lparr>isLoading := False\<rparr>, w))"

definition saveCurrentMemo ::
  "MemoViewModel \<Rightarrow> string \<Rightarrow> string \<Rightarrow> world \<Rightarrow> bool \<times> MemoViewModel \<times> world" where
  "saveCurrentMemo vm t c w =
     (case vm_context vm of
        None \<Rightarrow> (False, vm, w)
      | Some ctx \<Rightarrow>
          (let vm1 = vm\<lparr>isLoading := True\<rparr> in
           case edit_target vm1 of
             Some (i, cm) \<Rightarrow>
               (case updateMemo w
                       (new_Memo (clock w) t c (Some i) (Some (createdDate cm)) (Some (clock w))) of
                  (Inl e, w1) \<Rightarrow> (False, vm1\<lparr>isLoading := False\<rparr>, w1)
                | (Inr affectedRows, w1) \<Rightarrow> refresh_if (affectedRows > 0) vm1 w1)
           | None \<Rightarrow>
               (case addMemo w (new_Memo (clock w) t c None None None) of
                  (Inl e, w1) \<Rightarrow> (False, vm1\<lparr>isLoading := False\<rparr>, w1)
                | (Inr rowId, w1) \<Rightarrow> refresh_if (rowId > 0) vm1 w1)))"

definition vm_deleteMemo :: "MemoViewModel \<Rightarrow> int \<Rightarrow> world \<Rightarrow> MemoViewModel \<times> world" where
  "vm_deleteMemo vm i w =
     (case vm_context vm of
        None \<Rightarrow> (vm, w)
      | Some ctx \<Rightarrow>
          (let vm1 = vm\<lparr>isLoading := True\<rparr> in
           case deleteMemo w i of
             (Inl e, w1) \<Rightarrow> (vm1\<lparr>isLoading := False\<rparr>, w1)
           | (Inr affectedRows, w1) \<Rightarrow>
               (if affectedRows > 0
                then (case searchMemos vm1 (searchKeyword vm1) w1 of
                        (vm2, w2) \<Rightarrow> (vm2\<lparr>isLoading := False\<rparr>, w2))
                else (vm1\<lparr>isLoading := False\<rparr>, w1))))"

section \<open>Overlapping calls of getRdbStore and of getPreferences\<close>

text \<open>
  Several calls of \<open>getRdbStore\<close> on the one \<open>rdbHelper\<close>, interleaved the way
  JavaScript interleaves async functions: a call runs without interruption up to its
  \<open>await\<close> (\<open>Enter\<close>) and later from its \<open>await\<close> to its return (\<open>Resume\<close>); between
  the two, other calls may run. A caller is \<open>NotEntered\<close>, \<open>AwaitingOpen h\<close> (its open
  is under way and will yield handle \<open>h\<close>) or \<open>Resolved\<close> with its result.
  \<open>pref_race_step\<close> is the same for calls of \<open>getPreferences\<close> on the one
  \<open>preferencesHelper\<close>.
\<close>

datatype caller = NotEntered | AwaitingOpen nat | Resolved "error + nat"

datatype sched = Enter nat | Resume nat

record race =
  rw :: world
  callers :: "caller list"

fun race_step :: "race \<Rightarrow> sched \<Rightarrow> race" where
  "race_step r (Enter k) =
     (if k < length (callers r) \<and> callers r ! k = NotEntered
      then (case getRdbStore_enter (rw r) of
              (Some h, w1) \<Rightarrow> r\<lparr>rw := w1, callers := (callers r)[k := Resolved (Inr h)]\<rparr>
            | (None, w1) \<Rightarrow> r\<lparr>rw := w1, callers := (callers r)[k := AwaitingOpen (opens w1)]\<rparr>)
      else r)"
| "race_step r (Resume k) =
     (if k < length (callers r)
      then (case callers r ! k of
              AwaitingOpen h \<Rightarrow>
                (case getRdbStore_resume h (rw r) of
                   (res, w1) \<Rightarrow> r\<lparr>rw := w1, callers := (callers r)[k := Resolved res]\<rparr>)
            | _ \<Rightarrow> r)
      else r)"

fun pref_race_step :: "race \<Rightarrow> sched \<Rightarrow> race" where
  "pref_race_step r (Enter k) =
     (if k < length (callers r) \<and> callers r ! k = NotEntered
      then (case getPreferences_enter (rw r) of
              (Some p, w1) \<Rightarrow> r\<lparr>rw := w1, callers := (callers r)[k := Resolved (Inr p)]\<rparr>
            | (None, w1) \<Rightarrow>
                r\<lparr>rw := w1, callers := (callers r)[k := AwaitingOpen (pref_opens w1)]\<rparr>)
      else r)"
| "pref_race_step r (Resume k) =
     (if k < length (callers r)
      then (case callers r ! k of
              AwaitingOpen p \<Rightarrow>
                (case getPreferences_resume p (rw r) of
                   (res, w1) \<Rightarrow> r\<lparr>rw := w1, callers := (callers r)[k := Resolved res]\<rparr>)
            | _ \<Rightarrow> r)
      else r)"

definition race_run :: "race \<Rightarrow> sched list \<Rightarrow> race" where
  "race_run r s = foldl race_step r s"

definition pref_race_run :: "race \<Rightarrow> sched list \<Rightarrow> race" where
  "pref_race_run r s = foldl pref_race_step r s"

text \<open>Calls made one after another: each starts when the one before has returned.\<close>

fun in_turn :: "(world \<Rightarrow> 'a \<times> world) \<Rightarrow> nat \<Rightarrow> world \<Rightarrow> 'a list \<times> world" where
  "in_turn f 0 w = ([], w)"
| "in_turn f (Suc n) w =
     (case f w of (r, w1) \<Rightarrow> (case in_turn f n w1 of (rs, w2) \<Rightarrow> (r # rs, w2)))"

section \<open>Auxiliary notions\<close>

text \<open>A process that has just started: no handle, an empty table, no fault scheduled.\<close>

definition fresh_world :: world where
  "fresh_world =
     \<lparr>rdbStore = None, prefInstance = None, memo_table = [], sqlite_sequence = 0,
      pref_store = (\<lambda>k. None), clock = 0, script = [], opens = 0, pref_opens = 0,
      cursors_opened = 0, cursors_closed = 0\<rparr>"

text \<open>
  The store of the specification's example: three notes titled Alpha, Beta and Alphabet,
  written in that order, the store already open.
\<close>

definition three_notes :: world where
  "three_notes =
     fresh_world\<lparr>rdbStore := Some 1, clock := 40, sqlite_sequence := 3,
       memo_table :=
         [\<lparr>rid = 1, r_title = ''Alpha'', r_content = ''a'', created_date = 10, modified_date = 10\<rparr>,
          \<lparr>rid = 2, r_title = ''Beta'', r_content = ''b'', created_date = 20, modified_date = 20\<rparr>,
          \<lparr>rid = 3, r_title = ''Alphabet'', r_content = ''c'', created_date = 30,
            modified_date = 30\<rparr>]\<rparr>"

text \<open>The titles of the notes an operation returned (none when it raised).\<close>

definition titles_of :: "error + Memo list \<Rightarrow> string list" where
  "titles_of res = (case res of Inl e \<Rightarrow> [] | Inr found \<Rightarrow> map title found)"

text \<open>The world after one platform step, whatever the step's outcome.\<close>

definition after_call :: "world \<Rightarrow> world" where
  "after_call w = snd (platform_call w)"

text \<open>Result sets handed out and not yet closed.\<close>

definition unreleased :: "world \<Rightarrow> int" where
  "unreleased w = int (cursors_opened w) - int (cursors_closed w)"

text \<open>The Memo a row decodes to.\<close>

definition row_memo :: "row \<Rightarrow> Memo" where
  "row_memo r =
     \<lparr>memo_id = Some (rid r), title = r_title r, content = r_content r,
      createdDate = created_date r, modifiedDate = modified_date r\<rparr>"

text \<open>
  Containment up to the case of ASCII letters: the keyword occurs in the title as a
  contiguous run of characters.
\<close>

definition title_contains :: "string \<Rightarrow> string \<Rightarrow> bool" where
  "title_contains keyword t = sublist (map ascii_lower keyword) (map ascii_lower t)"

definition wildcard_free :: "string \<Rightarrow> bool" where
  "wildcard_free keyword = (CHR ''%'' \<notin> set keyword \<and> CHR ''_'' \<notin> set keyword)"

section \<open>Properties\<close>

subsection \<open>Platform steps\<close>

text \<open>The definitions a concrete run unfolds.\<close>

lemmas dao_defs =
  addMemo_def updateMemo_def deleteMemo_def queryAllMemos_def queryMemosByTitle_def
  queryMemoById_def parseResultSet_def parse_rows_def first_row_def getRdbStore_def getRdbStore_enter_def
  getRdbStore_resume_def store_insert_def store_update_def store_delete_def store_query_def
  select_rows_def goToFirstRow_def read_row_def resultSet_close_def platform_call_def
  next_rowid_def new_Memo_def fresh_world_def

lemmas vm_defs =
  searchMemos_def loadInitialData_def loadMemoById_def saveCurrentMemo_def vm_deleteMemo_def
  vm_loadFontSizes_def refresh_if_def edit_target_def trim_def is_space_def initialize_def
  new_MemoViewModel_def


lemma after_call_fields [simp]:
  "rdbStore (after_call w) = rdbStore w"
  "prefInstance (after_call w) = prefInstance w"
  "memo_table (after_call w) = memo_table w"
  "sqlite_sequence (after_call w) = sqlite_sequence w"
  "pref_store (after_call w) = pref_store w"
  "opens (after_call w) = opens w"
  "pref_opens (after_call w) = pref_opens w"
  "cursors_opened (after_call w) = cursors_opened w"
  "cursors_closed (after_call w) = cursors_closed w"
  by (simp_all add: after_call_def platform_call_def split: list.splits prod.splits)

lemma clock_after_call: "clock w \<le> clock (after_call w)"
  by (simp add: after_call_def platform_call_def split: list.splits prod.splits)

lemma platform_callD: "platform_call w = (oc, w1) \<Longrightarrow> w1 = after_call w"
  by (simp add: after_call_def)

lemma fault_free_call:
  "fault_free w \<Longrightarrow> platform_call w = (Succeeds, after_call w)"
  by (auto simp: after_call_def platform_call_def fault_free_def split: list.splits prod.splits)

lemma fault_free_after_call [simp]: "fault_free w \<Longrightarrow> fault_free (after_call w)"
  by (auto simp: after_call_def platform_call_def fault_free_def split: list.splits prod.splits)

lemma fault_free_update [simp]:
  "fault_free (w\<lparr>rdbStore := a\<rparr>) = fault_free w"
  "fault_free (w\<lparr>opens := b\<rparr>) = fault_free w"
  "fault_free (w\<lparr>memo_table := c\<rparr>) = fault_free w"
  "fault_free (w\<lparr>sqlite_sequence := d\<rparr>) = fault_free w"
  "fault_free (w\<lparr>cursors_opened := e\<rparr>) = fault_free w"
  "fault_free (w\<lparr>cursors_closed := f\<rparr>) = fault_free w"
  by (simp_all add: fault_free_def)

subsection \<open>Obtaining the store\<close>

lemma getRdbStore_fault_free:
  assumes "fault_free w"
  shows "\<exists>h w1. getRdbStore w = (Inr h, w1) \<and> fault_free w1 \<and> rdbStore w1 = Some h
           \<and> memo_table w1 = memo_table w \<and> sqlite_sequence w1 = sqlite_sequence w"
  using assms
  by (cases "rdbStore w")
     (simp_all add: getRdbStore_def getRdbStore_enter_def getRdbStore_resume_def fault_free_call)

lemma getRdbStore_memoised:
  "rdbStore w = Some h \<Longrightarrow> getRdbStore w = (Inr h, w)"
  by (simp add: getRdbStore_def getRdbStore_enter_def)

subsection \<open>Insert, then query by id\<close>

lemma rid_le_fold_max: "r \<in> set rows \<Longrightarrow> rid r \<le> fold max (map rid rows) (s::int)"
proof (induction rows arbitrary: s)
  case Nil then show ?case by simp
next
  case (Cons a rows)
  have mono: "\<And>xs (s::int). s \<le> fold max xs s"
  proof -
    fix xs :: "int list" and s :: int
    show "s \<le> fold max xs s"
    proof (induction xs arbitrary: s)
      case Nil show ?case by simp
    next
      case (Cons x xs)
      have "s \<le> max x s" by simp
      also have "\<dots> \<le> fold max xs (max x s)" by (rule Cons.IH)
      finally show ?case by simp
    qed
  qed
  show ?case
  proof (cases "r = a")
    case True
    have "rid a \<le> max (rid a) s" by simp
    also have "\<dots> \<le> fold max (map rid rows) (max (rid a) s)" by (rule mono)
    finally show ?thesis using True by simp
  next
    case False
    with Cons.prems have "r \<in> set rows" by simp
    then show ?thesis using Cons.IH by simp
  qed
qed

lemma next_rowid_fresh: "r \<in> set (memo_table w) \<Longrightarrow> rid r < next_rowid w"
  using rid_le_fold_max [of r "memo_table w" "sqlite_sequence w"] by (simp add: next_rowid_def)

lemma filter_fresh: "filter (\<lambda>r. rid r = next_rowid w) (memo_table w) = []"
  by (auto simp: filter_empty_conv dest: next_rowid_fresh)

lemma satisfies_EqualTo: "satisfies (Some (EqualTo_id i)) = (\<lambda>r. rid r = i)"
  by (rule ext) simp

text \<open>
  Claim C1. When no platform call fails, adding a newly constructed note (title \<open>t\<close>,
  content \<open>c\<close>, constructed at clock reading \<open>now\<close>) returns an identity, and
  \<open>queryMemoById\<close> on that identity returns a present note with that identity, title
  \<open>t\<close>, content \<open>c\<close>, and a created date equal to its modified date.
\<close>

theorem add_then_queryById:
  assumes "fault_free w"
  shows "\<exists>rowId w1 m w2.
           addMemo w (new_Memo now t c None None None) = (Inr rowId, w1) \<and>
           queryMemoById w1 rowId = (Inr (Some m), w2) \<and>
           memo_id m = Some rowId \<and> title m = t \<and> content m = c \<and>
           createdDate m = modifiedDate m"
proof -
  from getRdbStore_fault_free [OF assms] obtain h w1 where
    g: "getRdbStore w = (Inr h, w1)" and ff1: "fault_free w1" and h1: "rdbStore w1 = Some h"
    by blast
  define i where "i = next_rowid (after_call w1)"
  define new where "new = \<lparr>rid = i, r_title = t, r_content = c, created_date = now, modified_date = now\<rparr>"
  define w2 where "w2 = (after_call w1)\<lparr>memo_table := memo_table (after_call w1) @ [new], sqlite_sequence := i\<rparr>"
  have ins: "store_insert w1 (t, c, now, now) = (Inr i, w2)"
    using ff1 by (simp add: store_insert_def fault_free_call i_def new_def w2_def Let_def)
  have add: "addMemo w (new_Memo now t c None None None) = (Inr i, w2)"
    by (simp add: addMemo_def g new_Memo_def ins)
  have ff2: "fault_free w2" using ff1 by (simp add: w2_def)
  have h2: "rdbStore w2 = Some h" using h1 by (simp add: w2_def)
  have sel: "filter (\<lambda>r. rid r = i) (memo_table w2) = [new]"
    using filter_fresh [of "after_call w1"] by (simp add: w2_def i_def new_def)
  define w3 where "w3 = (after_call w2)\<lparr>cursors_opened := cursors_opened (after_call w2) + 1\<rparr>"
  have q: "store_query w2 \<lparr>cond = Some (EqualTo_id i), orderByDesc_modified_date = False\<rparr>
             = (Inr (Some [new]), w3)"
    using ff2 sel by (simp add: store_query_def fault_free_call select_rows_def w3_def satisfies_EqualTo)
  have ff3: "fault_free w3" using ff2 by (simp add: w3_def)
  have gf: "goToFirstRow w3 = (Inr True, after_call w3)"
    using ff3 by (simp add: goToFirstRow_def fault_free_call)
  define m where "m = new_Memo (clock (after_call (after_call w3))) t c (Some i) (Some now) (Some now)"
  have rr: "read_row (after_call w3) new = (Inr m, after_call (after_call w3))"
    using ff3 by (simp add: read_row_def fault_free_call m_def new_def)
  have "queryMemoById w2 i = (Inr (Some m), snd (resultSet_close (after_call (after_call w3))))"
    by (simp add: queryMemoById_def first_row_def getRdbStore_memoised [OF h2] q gf rr)
  moreover have "memo_id m = Some i \<and> title m = t \<and> content m = c \<and> createdDate m = modifiedDate m"
    by (simp add: m_def new_Memo_def)
  ultimately show ?thesis using add by blast
qed


theorem add_then_queryById_witness:
  "fault_free fresh_world \<and>
   fst (addMemo fresh_world (new_Memo 1000 ''Alpha'' ''first'' None None None)) = Inr 1 \<and>
   (\<exists>rowId w1 m w2.
      addMemo fresh_world (new_Memo 1000 ''Alpha'' ''first'' None None None) = (Inr rowId, w1) \<and>
      queryMemoById w1 rowId = (Inr (Some m), w2) \<and>
      memo_id m = Some rowId \<and> title m = ''Alpha'' \<and> content m = ''first'' \<and>
      createdDate m = modifiedDate m)"
proof -
  have ff: "fault_free fresh_world"
    by (simp add: fault_free_def fresh_world_def)
  have "fst (addMemo fresh_world (new_Memo 1000 ''Alpha'' ''first'' None None None)) = Inr 1"
    by (simp add: addMemo_def getRdbStore_def getRdbStore_enter_def getRdbStore_resume_def
        platform_call_def store_insert_def next_rowid_def new_Memo_def fresh_world_def)
  then show ?thesis
    using ff add_then_queryById [OF ff, of 1000 "''Alpha''" "''first''"] by simp
qed

subsection \<open>Update\<close>

lemma clock_getRdbStore: "clock w \<le> clock (snd (getRdbStore w))"
  using clock_after_call [of "w\<lparr>opens := opens w + 1\<rparr>"]
  by (cases "rdbStore w")
     (auto simp: getRdbStore_def getRdbStore_enter_def getRdbStore_resume_def after_call_def
           split: prod.splits outcome.splits)

lemma memo_table_getRdbStore [simp]: "memo_table (snd (getRdbStore w)) = memo_table w"
  using after_call_fields(3) [of "w\<lparr>opens := opens w + 1\<rparr>"]
  by (cases "rdbStore w")
     (auto simp: getRdbStore_def getRdbStore_enter_def getRdbStore_resume_def after_call_def
           split: prod.splits outcome.splits)

lemma store_update_Inr:
  assumes "store_update w (t, c, md) i = (Inr n, w')"
  shows "memo_table w' =
           map (\<lambda>r. if rid r = i then r\<lparr>r_title := t, r_content := c, modified_date := md\<rparr> else r)
             (memo_table w)"
    and "clock w \<le> clock w'"
  using assms clock_after_call [of w]
  by (auto simp: store_update_def split: prod.splits outcome.splits dest!: platform_callD)

text \<open>
  Claim C2, amended. A successful update of a persisted note (the row at position \<open>k\<close>,
  whose id is the id of the argument) overwrites title and content, leaves id and
  created date as they were, and stores as modified date the clock reading taken when the
  store has been obtained, a reading between the start and the end of the call; the
  created and modified dates of the argument play no part. The new modified date is at
  least the previous one provided the previous one is not later than the clock at the
  start of the call.
\<close>

theorem updateMemo_overwrites:
  assumes "updateMemo w memo = (Inr n, w')"
    and "0 < n"
    and "k < length (memo_table w)"
    and "memo_id memo = Some (rid (memo_table w ! k))"
  shows "length (memo_table w') = length (memo_table w) \<and>
         rid (memo_table w' ! k) = rid (memo_table w ! k) \<and>
         created_date (memo_table w' ! k) = created_date (memo_table w ! k) \<and>
         r_title (memo_table w' ! k) = title memo \<and>
         r_content (memo_table w' ! k) = content memo \<and>
         modified_date (memo_table w' ! k) = clock (snd (getRdbStore w)) \<and>
         clock w \<le> modified_date (memo_table w' ! k) \<and>
         modified_date (memo_table w' ! k) \<le> clock w' \<and>
         (modified_date (memo_table w ! k) \<le> clock w \<longrightarrow>
            modified_date (memo_table w ! k) \<le> modified_date (memo_table w' ! k)) \<and>
         (\<forall>cd md. updateMemo w (memo\<lparr>createdDate := cd, modifiedDate := md\<rparr>) = updateMemo w memo)"
proof -
  define i where "i = rid (memo_table w ! k)"
  obtain g w1 where g: "getRdbStore w = (g, w1)" by (cases "getRdbStore w")
  from assms(1,2,4) g obtain h where h: "g = Inr h"
    by (cases g) (auto simp: updateMemo_def)
  from assms(1,2,4) g h have su: "store_update w1 (title memo, content memo, clock w1) i = (Inr n, w')"
    by (auto simp: updateMemo_def i_def split: prod.splits sum.splits)
  have tab1: "memo_table w1 = memo_table w"
    using memo_table_getRdbStore [of w] g by simp
  have c1: "clock w \<le> clock w1"
    using clock_getRdbStore [of w] g by simp
  note upd = store_update_Inr [OF su]
  have tab': "memo_table w' =
      map (\<lambda>r. if rid r = i then r\<lparr>r_title := title memo, r_content := content memo,
                                 modified_date := clock w1\<rparr> else r) (memo_table w)"
    using upd(1) tab1 by simp
  have row': "memo_table w' ! k =
      (memo_table w ! k)\<lparr>r_title := title memo, r_content := content memo, modified_date := clock w1\<rparr>"
    using assms(3) by (simp add: tab' i_def)
  have indep: "\<forall>cd md. updateMemo w (memo\<lparr>createdDate := cd, modifiedDate := md\<rparr>) = updateMemo w memo"
    by (simp add: updateMemo_def split: option.splits prod.splits sum.splits)
  have w1: "clock (snd (getRdbStore w)) = clock w1" using g by simp
  have len: "length (memo_table w') = length (memo_table w)"
    by (simp add: tab')
  show ?thesis
    using c1 upd(2) indep by (simp add: row' w1 len)
qed

theorem updateMemo_overwrites_witness:
  "(let w = fresh_world\<lparr>rdbStore := Some 1, clock := 500,
              memo_table := [\<lparr>rid = 7, r_title = ''Alpha'', r_content = ''a'',
                               created_date = 100, modified_date = 200\<rparr>]\<rparr>;
        memo = new_Memo 500 ''Beta'' ''b'' (Some 7) (Some 100) (Some 1)
    in updateMemo w memo =
         (Inr 1, w\<lparr>memo_table := [\<lparr>rid = 7, r_title = ''Beta'', r_content = ''b'',
                                      created_date = 100, modified_date = 500\<rparr>]\<rparr>) \<and>
       modified_date (memo_table w ! 0) \<le> modified_date (memo_table (snd (updateMemo w memo)) ! 0))"
proof -
  define w where "w = fresh_world\<lparr>rdbStore := Some 1, clock := 500,
              memo_table := [\<lparr>rid = 7, r_title = ''Alpha'', r_content = ''a'',
                               created_date = 100, modified_date = 200\<rparr>]\<rparr>"
  define memo where "memo = new_Memo 500 ''Beta'' ''b'' (Some 7) (Some 100) (Some 1)"
  define w' where "w' = w\<lparr>memo_table := [\<lparr>rid = 7, r_title = ''Beta'', r_content = ''b'',
                                      created_date = 100, modified_date = 500\<rparr>]\<rparr>"
  have run: "updateMemo w memo = (Inr 1, w')"
    by (simp add: updateMemo_def getRdbStore_def getRdbStore_enter_def store_update_def
        platform_call_def new_Memo_def fresh_world_def w_def memo_def w'_def)
  have k: "0 < length (memo_table w)" by (simp add: w_def)
  have idk: "memo_id memo = Some (rid (memo_table w ! 0))"
    by (simp add: w_def memo_def new_Memo_def)
  have past: "modified_date (memo_table w ! 0) \<le> clock w"
    by (simp add: w_def fresh_world_def)
  from updateMemo_overwrites [OF run _ k idk] past
  have "modified_date (memo_table w ! 0) \<le> modified_date (memo_table w' ! 0)" by simp
  with run show ?thesis
    unfolding w_def [symmetric] memo_def [symmetric] w'_def [symmetric] Let_def by simp
qed

theorem updateMemo_modified_date_counterexample:
  "(let w1 = snd (addMemo (fresh_world\<lparr>clock := 50\<rparr>)
                    (new_Memo 50 ''a'' ''b'' None (Some 100) (Some 100)));
        res = updateMemo w1 (new_Memo 50 ''x'' ''y'' (Some 1) (Some 100) (Some 100))
    in map rid (memo_table w1) = [1] \<and> map modified_date (memo_table w1) = [100] \<and>
       fst res = Inr 1 \<and> map modified_date (memo_table (snd res)) = [50] \<and>
       \<not> modified_date (memo_table w1 ! 0) \<le> modified_date (memo_table (snd res) ! 0))"
  by (simp add: addMemo_def updateMemo_def getRdbStore_def getRdbStore_enter_def
      getRdbStore_resume_def store_insert_def store_update_def next_rowid_def
      platform_call_def new_Memo_def fresh_world_def Let_def)

subsection \<open>The view model\<close>

lemma searchMemos_bound:
  assumes "vm_context vm = Some ctx"
  shows "\<not> isLoading (fst (searchMemos vm kw w))"
    and "vm_context (fst (searchMemos vm kw w)) = Some ctx"
    and "(fst (searchMemos vm kw w))\<lparr>isLoading := False\<rparr> = fst (searchMemos vm kw w)"
  using assms by (simp_all add: searchMemos_def Let_def split: prod.splits sum.splits)

lemma refresh_if_bound:
  assumes "vm_context vm = Some ctx"
  shows "refresh_if ok vm w =
           (if ok then (True, searchMemos vm (searchKeyword vm) w)
            else (False, vm\<lparr>isLoading := False\<rparr>, w))"
  using searchMemos_bound(3) [OF assms, of "searchKeyword vm" w]
  by (cases "searchMemos vm (searchKeyword vm) w") (simp add: refresh_if_def)

text \<open>
  Claim C3, amended. With the context bound, \<open>saveCurrentMemo\<close> takes the edit path
  exactly when the current note is present and carries an id: it calls \<open>updateMemo\<close> with
  the new title and content, the original id and created date and the clock reading as
  modified date, and succeeds iff the update returns a count above 0. In every other
  case (no current note, or one without an id) it calls \<open>addMemo\<close> with a newly
  constructed note and succeeds iff the returned id is above 0. On success the result is
  the state \<open>searchMemos\<close> leaves when run with the current keyword on the world the
  repository call produced; on failure the list is untouched.
\<close>

theorem saveCurrentMemo_paths:
  assumes "vm_context vm = Some ctx"
  shows
    "(\<forall>cm i. currentMemo vm = Some cm \<and> memo_id cm = Some i \<longrightarrow>
        (\<exists>r w1. updateMemo w \<lparr>memo_id = Some i, title = t, content = c,
                     createdDate = createdDate cm, modifiedDate = clock w\<rparr> = (r, w1) \<and>
           saveCurrentMemo vm t c w =
             (if (case r of Inl e \<Rightarrow> False | Inr affectedRows \<Rightarrow> 0 < affectedRows)
              then (True, searchMemos (vm\<lparr>isLoading := True\<rparr>) (searchKeyword vm) w1)
              else (False, vm\<lparr>isLoading := False\<rparr>, w1)))) \<and>
     ((currentMemo vm = None \<or> (\<exists>cm. currentMemo vm = Some cm \<and> memo_id cm = None)) \<longrightarrow>
        (\<exists>r w1. addMemo w \<lparr>memo_id = None, title = t, content = c,
                     createdDate = clock w, modifiedDate = clock w\<rparr> = (r, w1) \<and>
           saveCurrentMemo vm t c w =
             (if (case r of Inl e \<Rightarrow> False | Inr rowId \<Rightarrow> 0 < rowId)
              then (True, searchMemos (vm\<lparr>isLoading := True\<rparr>) (searchKeyword vm) w1)
              else (False, vm\<lparr>isLoading := False\<rparr>, w1))))"
proof -
  have b: "vm_context (vm\<lparr>isLoading := True\<rparr>) = Some ctx" using assms by simp
  note rf = refresh_if_bound [OF b]
  have edit: "\<And>cm i. currentMemo vm = Some cm \<Longrightarrow> memo_id cm = Some i \<Longrightarrow>
      saveCurrentMemo vm t c w =
        (case updateMemo w \<lparr>memo_id = Some i, title = t, content = c,
                     createdDate = createdDate cm, modifiedDate = clock w\<rparr> of
           (r, w1) \<Rightarrow>
             (if (case r of Inl e \<Rightarrow> False | Inr affectedRows \<Rightarrow> 0 < affectedRows)
              then (True, searchMemos (vm\<lparr>isLoading := True\<rparr>) (searchKeyword vm) w1)
              else (False, vm\<lparr>isLoading := False\<rparr>, w1)))"
    using assms
    by (simp add: saveCurrentMemo_def edit_target_def new_Memo_def rf Let_def
             split: prod.splits sum.splits)
  have add: "edit_target vm = None \<Longrightarrow>
      saveCurrentMemo vm t c w =
        (case addMemo w \<lparr>memo_id = None, title = t, content = c,
                     createdDate = clock w, modifiedDate = clock w\<rparr> of
           (r, w1) \<Rightarrow>
             (if (case r of Inl e \<Rightarrow> False | Inr rowId \<Rightarrow> 0 < rowId)
              then (True, searchMemos (vm\<lparr>isLoading := True\<rparr>) (searchKeyword vm) w1)
              else (False, vm\<lparr>isLoading := False\<rparr>, w1)))"
    using assms
    by (simp add: saveCurrentMemo_def edit_target_def new_Memo_def rf Let_def
             split: prod.splits sum.splits)
  have none: "currentMemo vm = None \<or> (\<exists>cm. currentMemo vm = Some cm \<and> memo_id cm = None)
      \<Longrightarrow> edit_target vm = None"
    by (auto simp: edit_target_def)
  show ?thesis
  proof (intro conjI allI impI)
    fix cm i assume "currentMemo vm = Some cm \<and> memo_id cm = Some i"
    then show "\<exists>r w1. updateMemo w \<lparr>memo_id = Some i, title = t, content = c,
                     createdDate = createdDate cm, modifiedDate = clock w\<rparr> = (r, w1) \<and>
           saveCurrentMemo vm t c w =
             (if (case r of Inl e \<Rightarrow> False | Inr affectedRows \<Rightarrow> 0 < affectedRows)
              then (True, searchMemos (vm\<lparr>isLoading := True\<rparr>) (searchKeyword vm) w1)
              else (False, vm\<lparr>isLoading := False\<rparr>, w1))"
      using edit [of cm i] by (auto split: prod.splits)
  next
    assume "currentMemo vm = None \<or> (\<exists>cm. currentMemo vm = Some cm \<and> memo_id cm = None)"
    then show "\<exists>r w1. addMemo w \<lparr>memo_id = None, title = t, content = c,
                     createdDate = clock w, modifiedDate = clock w\<rparr> = (r, w1) \<and>
           saveCurrentMemo vm t c w =
             (if (case r of Inl e \<Rightarrow> False | Inr rowId \<Rightarrow> 0 < rowId)
              then (True, searchMemos (vm\<lparr>isLoading := True\<rparr>) (searchKeyword vm) w1)
              else (False, vm\<lparr>isLoading := False\<rparr>, w1))"
      using add [OF none] by (auto split: prod.splits)
  qed
qed

theorem saveCurrentMemo_paths_witness:
  "(let w = fresh_world\<lparr>clock := 9, sqlite_sequence := 1,
              memo_table := [\<lparr>rid = 1, r_title = ''Alpha'', r_content = ''a'',
                               created_date = 3, modified_date = 4\<rparr>]\<rparr>;
        vm_add = initialize new_MemoViewModel 0;
        cm = new_Memo 0 ''Alpha'' ''a'' (Some 1) (Some 3) (Some 4);
        vm_edit = vm_add\<lparr>currentMemo := Some cm\<rparr>
    in vm_context vm_edit = Some 0 \<and> vm_context vm_add = Some 0 \<and>
       currentMemo vm_edit = Some cm \<and> memo_id cm = Some 1 \<and> currentMemo vm_add = None \<and>
       (\<exists>r w1. updateMemo w \<lparr>memo_id = Some 1, title = ''T'', content = ''C'',
                     createdDate = createdDate cm, modifiedDate = clock w\<rparr> = (r, w1) \<and>
           saveCurrentMemo vm_edit ''T'' ''C'' w =
             (if (case r of Inl e \<Rightarrow> False | Inr affectedRows \<Rightarrow> 0 < affectedRows)
              then (True, searchMemos (vm_edit\<lparr>isLoading := True\<rparr>) (searchKeyword vm_edit) w1)
              else (False, vm_edit\<lparr>isLoading := False\<rparr>, w1))) \<and>
       (\<exists>r w1. addMemo w \<lparr>memo_id = None, title = ''T'', content = ''C'',
                     createdDate = clock w, modifiedDate = clock w\<rparr> = (r, w1) \<and>
           saveCurrentMemo vm_add ''T'' ''C'' w =
             (if (case r of Inl e \<Rightarrow> False | Inr rowId \<Rightarrow> 0 < rowId)
              then (True, searchMemos (vm_add\<lparr>isLoading := True\<rparr>) (searchKeyword vm_add) w1)
              else (False, vm_add\<lparr>isLoading := False\<rparr>, w1))) \<and>
       fst (saveCurrentMemo vm_edit ''T'' ''C'' w) \<and>
       map r_title (memo_table (snd (snd (saveCurrentMemo vm_edit ''T'' ''C'' w)))) = [''T''] \<and>
       fst (saveCurrentMemo vm_add ''T'' ''C'' w) \<and>
       map r_title (memo_table (snd (snd (saveCurrentMemo vm_add ''T'' ''C'' w)))) = [''Alpha'', ''T''])"
proof -
  define w where "w = fresh_world\<lparr>clock := 9, sqlite_sequence := 1,
              memo_table := [\<lparr>rid = 1, r_title = ''Alpha'', r_content = ''a'',
                               created_date = 3, modified_date = 4\<rparr>]\<rparr>"
  define vm_add where "vm_add = initialize new_MemoViewModel 0"
  define cm where "cm = new_Memo 0 ''Alpha'' ''a'' (Some 1) (Some 3) (Some 4)"
  define vm_edit where "vm_edit = vm_add\<lparr>currentMemo := Some cm\<rparr>"
  have c1: "vm_context vm_edit = Some 0" and c2: "vm_context vm_add = Some 0"
    by (simp_all add: vm_edit_def vm_add_def initialize_def)
  have e: "currentMemo vm_edit = Some cm \<and> memo_id cm = Some 1"
    by (simp add: vm_edit_def cm_def new_Memo_def)
  have a: "currentMemo vm_add = None"
    by (simp add: vm_add_def initialize_def new_MemoViewModel_def)
  have run_edit: "fst (saveCurrentMemo vm_edit ''T'' ''C'' w) \<and>
       map r_title (memo_table (snd (snd (saveCurrentMemo vm_edit ''T'' ''C'' w)))) = [''T'']"
    by (simp add: vm_edit_def vm_add_def cm_def w_def vm_defs dao_defs)
  have run_add: "fst (saveCurrentMemo vm_add ''T'' ''C'' w) \<and>
       map r_title (memo_table (snd (snd (saveCurrentMemo vm_add ''T'' ''C'' w)))) = [''Alpha'', ''T'']"
    by (simp add: vm_add_def w_def vm_defs dao_defs)
  from saveCurrentMemo_paths [OF c1, of w "''T''" "''C''"] e
  have 1: "\<exists>r w1. updateMemo w \<lparr>memo_id = Some 1, title = ''T'', content = ''C'',
                     createdDate = createdDate cm, modifiedDate = clock w\<rparr> = (r, w1) \<and>
           saveCurrentMemo vm_edit ''T'' ''C'' w =
             (if (case r of Inl e \<Rightarrow> False | Inr affectedRows \<Rightarrow> 0 < affectedRows)
              then (True, searchMemos (vm_edit\<lparr>isLoading := True\<rparr>) (searchKeyword vm_edit) w1)
              else (False, vm_edit\<lparr>isLoading := False\<rparr>, w1))"
    by blast
  from saveCurrentMemo_paths [OF c2, of w "''T''" "''C''"] a
  have 2: "\<exists>r w1. addMemo w \<lparr>memo_id = None, title = ''T'', content = ''C'',
                     createdDate = clock w, modifiedDate = clock w\<rparr> = (r, w1) \<and>
           saveCurrentMemo vm_add ''T'' ''C'' w =
             (if (case r of Inl e \<Rightarrow> False | Inr rowId \<Rightarrow> 0 < rowId)
              then (True, searchMemos (vm_add\<lparr>isLoading := True\<rparr>) (searchKeyword vm_add) w1)
              else (False, vm_add\<lparr>isLoading := False\<rparr>, w1))"
    by blast
  from c1 c2 e a 1 2 run_edit run_add show ?thesis
    unfolding w_def [symmetric] vm_add_def [symmetric] cm_def [symmetric]
      vm_edit_def [symmetric] Let_def
    by blast
qed

theorem saveCurrentMemo_edit_path_counterexample:
  "(let w = fresh_world\<lparr>clock := 9, sqlite_sequence := 1,
              memo_table := [\<lparr>rid = 1, r_title = ''Alpha'', r_content = ''a'',
                               created_date = 3, modified_date = 4\<rparr>]\<rparr>;
        vm = (initialize new_MemoViewModel 0)
               \<lparr>currentMemo := Some (new_Memo 5 ''draft'' [] None None None)\<rparr>
    in vm_context vm = Some 0 \<and> currentMemo vm \<noteq> None \<and>
       fst (saveCurrentMemo vm ''T'' ''C'' w) \<and>
       memo_table (snd (snd (saveCurrentMemo vm ''T'' ''C'' w))) =
         [\<lparr>rid = 1, r_title = ''Alpha'', r_content = ''a'', created_date = 3, modified_date = 4\<rparr>,
          \<lparr>rid = 2, r_title = ''T'', r_content = ''C'', created_date = 9, modified_date = 9\<rparr>])"
  by (simp add: vm_defs dao_defs Let_def)

text \<open>
  Claim C10. With the context bound, the loading flag is false in the state each of the
  five asynchronous operations resolves with, whatever the platform calls did.
\<close>

theorem isLoading_false_when_resolved:
  assumes "vm_context vm = Some ctx"
  shows "\<not> isLoading (fst (loadInitialData vm w)) \<and>
         \<not> isLoading (fst (searchMemos vm keyword w)) \<and>
         \<not> isLoading (fst (loadMemoById vm i w)) \<and>
         \<not> isLoading (fst (snd (saveCurrentMemo vm t c w))) \<and>
         \<not> isLoading (fst (vm_deleteMemo vm i w))"
proof -
  have b: "vm_context (vm\<lparr>isLoading := True\<rparr>) = Some ctx" using assms by simp
  have 1: "\<not> isLoading (fst (loadInitialData vm w))"
    using assms by (simp add: loadInitialData_def split: prod.splits)
  have 2: "\<not> isLoading (fst (searchMemos vm keyword w))"
    by (rule searchMemos_bound(1) [OF assms])
  have 3: "\<not> isLoading (fst (loadMemoById vm i w))"
    using assms by (simp add: loadMemoById_def Let_def split: prod.splits sum.splits)
  have 4: "\<not> isLoading (fst (snd (saveCurrentMemo vm t c w)))"
    using assms
    by (simp add: saveCurrentMemo_def refresh_if_def Let_def
             split: prod.splits sum.splits option.splits)
  have 5: "\<not> isLoading (fst (vm_deleteMemo vm i w))"
    using assms by (simp add: vm_deleteMemo_def Let_def split: prod.splits sum.splits)
  from 1 2 3 4 5 show ?thesis by simp
qed

theorem isLoading_false_when_resolved_witness:
  "(let vm = (initialize new_MemoViewModel 0)\<lparr>isLoading := True\<rparr>;
        w = fresh_world\<lparr>script := [(Throws, 5), (Succeeds, 1), (Throws, 2)]\<rparr>
    in vm_context vm = Some 0 \<and>
       \<not> isLoading (fst (loadInitialData vm w)) \<and>
       \<not> isLoading (fst (searchMemos vm ''a'' w)) \<and>
       \<not> isLoading (fst (loadMemoById vm 1 w)) \<and>
       \<not> isLoading (fst (snd (saveCurrentMemo vm ''T'' ''C'' w))) \<and>
       \<not> isLoading (fst (vm_deleteMemo vm 1 w)))"
proof -
  have c: "vm_context ((initialize new_MemoViewModel 0)\<lparr>isLoading := True\<rparr>) = Some 0"
    by (simp add: initialize_def)
  show ?thesis
    using c isLoading_false_when_resolved [OF c,
        of "fresh_world\<lparr>script := [(Throws, 5), (Succeeds, 1), (Throws, 2)]\<rparr>" "''a''" 1 "''T''" "''C''"]
    by (simp add: Let_def)
qed

subsection \<open>Result sets are closed\<close>

lemma unreleased_after_call [simp]: "unreleased (after_call w) = unreleased w"
  by (simp add: unreleased_def)

lemma unreleased_getRdbStore [simp]: "unreleased (snd (getRdbStore w)) = unreleased w"
proof (cases "rdbStore w")
  case None
  have "unreleased (after_call (w\<lparr>opens := opens w + 1\<rparr>)) = unreleased w"
    by (simp add: unreleased_def)
  then show ?thesis using None
    by (auto simp: getRdbStore_def getRdbStore_enter_def getRdbStore_resume_def unreleased_def
             split: prod.splits outcome.splits dest!: platform_callD)
next
  case (Some h)
  then show ?thesis by (simp add: getRdbStore_def getRdbStore_enter_def)
qed

lemma snd_goToFirstRow [simp]: "snd (goToFirstRow w) = after_call w"
  by (auto simp: goToFirstRow_def split: prod.splits outcome.splits dest!: platform_callD)

lemma snd_read_row [simp]: "snd (read_row w r) = after_call w"
  by (auto simp: read_row_def split: prod.splits outcome.splits dest!: platform_callD)

lemma unreleased_resultSet_close [simp]:
  "unreleased (snd (resultSet_close w)) = unreleased w - 1"
proof -
  have "snd (resultSet_close w) = after_call (w\<lparr>cursors_closed := cursors_closed w + 1\<rparr>)"
    by (auto simp: resultSet_close_def split: prod.splits outcome.splits dest!: platform_callD)
  then show ?thesis by (simp add: unreleased_def)
qed

lemma unreleased_read_rows [simp]: "unreleased (snd (read_rows w rs acc)) = unreleased w"
proof (induction rs arbitrary: w acc)
  case Nil
  show ?case by simp
next
  case (Cons r rs)
  obtain res w1 where rr: "read_row w r = (res, w1)" by (cases "read_row w r")
  then have w1: "w1 = after_call w" using snd_read_row [of w r] by simp
  show ?case
  proof (cases res)
    case (Inl e)
    then show ?thesis using rr w1 by simp
  next
    case (Inr memo)
    then show ?thesis using rr w1 Cons.IH [of w1 "acc @ [memo]"] by simp
  qed
qed

lemma unreleased_parse_rows [simp]: "unreleased (snd (parse_rows w rs)) = unreleased w"
proof (cases "rs = []")
  case True
  then show ?thesis by (simp add: parse_rows_def)
next
  case False
  obtain g w1 where g: "goToFirstRow w = (g, w1)" by (cases "goToFirstRow w")
  then have "w1 = after_call w" using snd_goToFirstRow [of w] by simp
  then show ?thesis using False g
    by (simp add: parse_rows_def split: sum.splits bool.splits)
qed

lemma unreleased_first_row [simp]: "unreleased (snd (first_row w rs)) = unreleased w"
proof (cases rs)
  case Nil
  then show ?thesis by (simp add: first_row_def)
next
  case (Cons r rest)
  obtain f w1 where f: "goToFirstRow w = (f, w1)" by (cases "goToFirstRow w")
  then have w1: "w1 = after_call w" using snd_goToFirstRow [of w] by simp
  obtain rr w2 where rr: "read_row w1 r = (rr, w2)" by (cases "read_row w1 r")
  then have w2: "w2 = after_call w1" using snd_read_row [of w1 r] by simp
  show ?thesis using Cons f w1 rr w2
    by (simp add: first_row_def split: sum.splits bool.splits)
qed

lemma unreleased_parseResultSet:
  "unreleased (snd (parseResultSet w resultSet)) =
     (case resultSet of None \<Rightarrow> unreleased w | Some rs \<Rightarrow> unreleased w - 1)"
proof (cases resultSet)
  case None
  then show ?thesis by (simp add: parseResultSet_def)
next
  case (Some rs)
  obtain ms w2 where b: "parse_rows w rs = (ms, w2)" by (cases "parse_rows w rs")
  then have "unreleased w2 = unreleased w" using unreleased_parse_rows [of w rs] by simp
  then show ?thesis using Some b by (simp add: parseResultSet_def)
qed

lemma store_query_cases:
  "store_query w p = (Inl BusinessError, after_call w) \<or>
   store_query w p = (Inr None, after_call w) \<or>
   store_query w p =
      (Inr (Some (select_rows p (memo_table w))),
       (after_call w)\<lparr>cursors_opened := cursors_opened w + 1\<rparr>)"
proof -
  obtain oc w' where pc: "platform_call w = (oc, w')" by (cases "platform_call w")
  then have w': "w' = after_call w" by (rule platform_callD)
  show ?thesis using pc w' by (cases oc) (simp_all add: store_query_def)
qed

lemma unreleased_opened [simp]:
  "unreleased (w\<lparr>cursors_opened := cursors_opened w + 1\<rparr>) = unreleased w + 1"
  by (simp add: unreleased_def)

lemma unreleased_query_then_parse:
  assumes "store_query w1 p = (Inr resultSet, w2)"
  shows "unreleased (snd (parseResultSet w2 resultSet)) = unreleased w1"
proof -
  have "resultSet = None \<and> unreleased w2 = unreleased w1 \<or>
        (\<exists>rs. resultSet = Some rs) \<and> unreleased w2 = unreleased w1 + 1"
    using assms store_query_cases [of w1 p] by (auto simp: unreleased_def)
  then show ?thesis by (auto simp: unreleased_parseResultSet)
qed

lemma unreleased_query_throws:
  assumes "store_query w1 p = (Inl e, w2)"
  shows "unreleased w2 = unreleased w1"
  using assms store_query_cases [of w1 p] by (auto simp: unreleased_def)

lemma unreleased_queryAllMemos: "unreleased (snd (queryAllMemos w)) = unreleased w"
proof -
  obtain g w1 where g: "getRdbStore w = (g, w1)" by (cases "getRdbStore w")
  then have u1: "unreleased w1 = unreleased w" using unreleased_getRdbStore [of w] by simp
  show ?thesis
  proof (cases g)
    case (Inl e)
    then show ?thesis using g u1 by (simp add: queryAllMemos_def)
  next
    case (Inr store)
    obtain q w2 where q: "store_query w1 \<lparr>cond = None, orderByDesc_modified_date = True\<rparr> = (q, w2)"
      by (cases "store_query w1 \<lparr>cond = None, orderByDesc_modified_date = True\<rparr>")
    show ?thesis
    proof (cases q)
      case (Inl e)
      then show ?thesis using g Inr q u1 unreleased_query_throws [of w1 _ e w2]
        by (simp add: queryAllMemos_def)
    next
      case (Inr resultSet)
      then show ?thesis using g \<open>g = Inr store\<close> q u1 unreleased_query_then_parse [of w1 _ resultSet w2]
        by (simp add: queryAllMemos_def case_prod_beta)
    qed
  qed
qed

lemma unreleased_queryMemosByTitle:
  "unreleased (snd (queryMemosByTitle w keyword)) = unreleased w"
proof (cases "keyword = []")
  case True
  then show ?thesis by (simp add: queryMemosByTitle_def unreleased_queryAllMemos)
next
  case False
  define p where "p = \<lparr>cond = Some (Like_title (CHR ''%'' # keyword @ [CHR ''%''])),
                      orderByDesc_modified_date = True\<rparr>"
  obtain g w1 where g: "getRdbStore w = (g, w1)" by (cases "getRdbStore w")
  then have u1: "unreleased w1 = unreleased w" using unreleased_getRdbStore [of w] by simp
  show ?thesis
  proof (cases g)
    case (Inl e)
    then show ?thesis using g u1 False by (simp add: queryMemosByTitle_def)
  next
    case (Inr store)
    obtain q w2 where q: "store_query w1 p = (q, w2)" by (cases "store_query w1 p")
    show ?thesis
    proof (cases q)
      case (Inl e)
      then show ?thesis using g Inr q u1 False unreleased_query_throws [of w1 p e w2]
        by (simp add: queryMemosByTitle_def p_def [symmetric])
    next
      case (Inr resultSet)
      then show ?thesis
        using g \<open>g = Inr store\<close> q u1 False unreleased_query_then_parse [of w1 p resultSet w2]
        by (simp add: queryMemosByTitle_def p_def [symmetric] case_prod_beta)
    qed
  qed
qed

lemma unreleased_queryMemoById: "unreleased (snd (queryMemoById w i)) = unreleased w"
proof -
  define p where "p = \<lparr>cond = Some (EqualTo_id i), orderByDesc_modified_date = False\<rparr>"
  obtain g w1 where g: "getRdbStore w = (g, w1)" by (cases "getRdbStore w")
  then have u1: "unreleased w1 = unreleased w" using unreleased_getRdbStore [of w] by simp
  obtain q w2 where q: "store_query w1 p = (q, w2)" by (cases "store_query w1 p")
  have run: "queryMemoById w i =
      (case g of
         Inl e \<Rightarrow> (Inl e, w1)
       | Inr store \<Rightarrow>
           (case q of
              Inl e \<Rightarrow> (Inr None, w2)
            | Inr None \<Rightarrow> (Inr None, w2)
            | Inr (Some rs) \<Rightarrow>
                (Inr (fst (first_row w2 rs)), snd (resultSet_close (snd (first_row w2 rs))))))"
    using g q unfolding p_def
    by (simp add: queryMemoById_def case_prod_beta split: sum.splits option.splits)
  have shape: "(\<exists>e. q = Inl e) \<and> unreleased w2 = unreleased w1 \<or>
        q = Inr None \<and> unreleased w2 = unreleased w1 \<or>
        (\<exists>rs. q = Inr (Some rs)) \<and> unreleased w2 = unreleased w1 + 1"
    using q store_query_cases [of w1 p] by (auto simp: unreleased_def)
  show ?thesis
  proof (cases g)
    case (Inl e)
    then show ?thesis using run u1 by simp
  next
    case (Inr store)
    then show ?thesis using run u1 shape by auto
  qed
qed

text \<open>
  Claim C8. Each of the three query operations leaves as many result sets unreleased as
  it found: on every path (rows parsed, empty result, no result set, an error thrown by
  the query, by the cursor or while a row is read, an error escaping from
  \<open>getRdbStore\<close>) every result set that \<open>store.query\<close> handed out has had its
  \<open>close\<close> called by the time the operation returns.
\<close>

theorem query_paths_close_result_set:
  "unreleased (snd (queryAllMemos w)) = unreleased w \<and>
   unreleased (snd (queryMemosByTitle w keyword)) = unreleased w \<and>
   unreleased (snd (queryMemoById w i)) = unreleased w"
  by (simp add: unreleased_queryAllMemos unreleased_queryMemosByTitle unreleased_queryMemoById)

text \<open>
  An example of the exception path: reading the second row throws after one note has been
  decoded. The notes decoded so far are returned, and the one result set is closed.
\<close>

lemma interrupted_parse_example:
  "(let w = three_notes\<lparr>script := [(Succeeds, 1), (Succeeds, 1), (Succeeds, 1), (Throws, 1)]\<rparr>;
        res = queryAllMemos w
    in titles_of (fst res) = [''Alphabet''] \<and>
       cursors_opened (snd res) = 1 \<and> cursors_closed (snd res) = 1)"
  by code_simp

subsection \<open>Which failures escape, which are absorbed\<close>


lemma platform_call_Throws:
  "fst (platform_call w) = Throws \<Longrightarrow> platform_call w = (Throws, after_call w)"
  by (cases "platform_call w") (simp add: after_call_def)

lemma store_query_Throws:
  "fst (platform_call w) = Throws \<Longrightarrow> store_query w p = (Inl BusinessError, after_call w)"
  by (simp add: store_query_def platform_call_Throws)

lemma select_rows_Nil [simp]: "select_rows p [] = []"
  by (simp add: select_rows_def)

lemma fst_parseResultSet_empty:
  "resultSet = None \<or> resultSet = Some [] \<Longrightarrow> fst (parseResultSet w resultSet) = []"
  by (auto simp: parseResultSet_def parse_rows_def)

lemma store_query_empty_table:
  assumes "memo_table w = []" and "store_query w p = (Inr resultSet, w2)"
  shows "resultSet = None \<or> resultSet = Some []"
  using assms store_query_cases [of w p] by auto




lemma queryAllMemos_returns:
  assumes "getRdbStore w = (Inr store, w1)"
  shows "\<exists>memos. fst (queryAllMemos w) = Inr memos"
    and "fst (platform_call w1) = Throws \<Longrightarrow> queryAllMemos w = (Inr [], after_call w1)"
    and "memo_table w = [] \<Longrightarrow> fst (queryAllMemos w) = Inr []"
proof -
  define p where "p = \<lparr>cond = None, orderByDesc_modified_date = True\<rparr>"
  obtain q w2 where q: "store_query w1 p = (q, w2)" by (cases "store_query w1 p")
  have run: "queryAllMemos w =
      (case q of Inl e \<Rightarrow> (Inr [], w2)
       | Inr resultSet \<Rightarrow> (Inr (fst (parseResultSet w2 resultSet)), snd (parseResultSet w2 resultSet)))"
    using assms q unfolding p_def
    by (simp add: queryAllMemos_def case_prod_beta split: sum.splits)
  show "\<exists>memos. fst (queryAllMemos w) = Inr memos"
    by (cases q) (simp_all add: run)
  show "queryAllMemos w = (Inr [], after_call w1)" if "fst (platform_call w1) = Throws"
    using store_query_Throws [OF that, of p] q by (simp add: run)
  show "fst (queryAllMemos w) = Inr []" if "memo_table w = []"
  proof (cases q)
    case (Inl e)
    then show ?thesis by (simp add: run)
  next
    case (Inr resultSet)
    have "memo_table w1 = []" using that assms memo_table_getRdbStore [of w] by simp
    from store_query_empty_table [OF this] q Inr
    have "resultSet = None \<or> resultSet = Some []" by simp
    then show ?thesis using Inr by (simp add: run fst_parseResultSet_empty)
  qed
qed

lemma queryMemosByTitle_returns:
  assumes "getRdbStore w = (Inr store, w1)"
  shows "\<exists>memos. fst (queryMemosByTitle w keyword) = Inr memos"
    and "fst (platform_call w1) = Throws \<Longrightarrow> queryMemosByTitle w keyword = (Inr [], after_call w1)"
    and "memo_table w = [] \<Longrightarrow> fst (queryMemosByTitle w keyword) = Inr []"
proof -
  define p where "p = \<lparr>cond = Some (Like_title (CHR ''%'' # keyword @ [CHR ''%''])),
                      orderByDesc_modified_date = True\<rparr>"
  obtain q w2 where q: "store_query w1 p = (q, w2)" by (cases "store_query w1 p")
  have run: "keyword \<noteq> [] \<Longrightarrow> queryMemosByTitle w keyword =
      (case q of Inl e \<Rightarrow> (Inr [], w2)
       | Inr resultSet \<Rightarrow> (Inr (fst (parseResultSet w2 resultSet)), snd (parseResultSet w2 resultSet)))"
    using assms q unfolding p_def
    by (simp add: queryMemosByTitle_def case_prod_beta split: sum.splits)
  have all: "keyword = [] \<Longrightarrow> queryMemosByTitle w keyword = queryAllMemos w"
    by (simp add: queryMemosByTitle_def)
  note qa = queryAllMemos_returns [OF assms]
  show "\<exists>memos. fst (queryMemosByTitle w keyword) = Inr memos"
  proof (cases "keyword = []")
    case True
    then show ?thesis using qa(1) all by simp
  next
    case False
    then show ?thesis by (cases q) (simp_all add: run)
  qed
  show "queryMemosByTitle w keyword = (Inr [], after_call w1)" if t: "fst (platform_call w1) = Throws"
  proof (cases "keyword = []")
    case True
    then show ?thesis using qa(2) [OF t] all by simp
  next
    case False
    then show ?thesis using store_query_Throws [OF t, of p] q by (simp add: run)
  qed
  show "fst (queryMemosByTitle w keyword) = Inr []" if e: "memo_table w = []"
  proof (cases "keyword = []")
    case True
    then show ?thesis using qa(3) [OF e] all by simp
  next
    case False
    show ?thesis
    proof (cases q)
      case (Inl e)
      then show ?thesis using False by (simp add: run)
    next
      case (Inr resultSet)
      have "memo_table w1 = []" using e assms memo_table_getRdbStore [of w] by simp
      from store_query_empty_table [OF this] q Inr
      have "resultSet = None \<or> resultSet = Some []" by simp
      then show ?thesis using Inr False by (simp add: run fst_parseResultSet_empty)
    qed
  qed
qed

lemma queryMemoById_returns:
  assumes "getRdbStore w = (Inr store, w1)"
  shows "\<exists>found. fst (queryMemoById w i) = Inr found"
    and "fst (platform_call w1) = Throws \<Longrightarrow> queryMemoById w i = (Inr None, after_call w1)"
    and "memo_table w = [] \<Longrightarrow> fst (queryMemoById w i) = Inr None"
proof -
  define p where "p = \<lparr>cond = Some (EqualTo_id i), orderByDesc_modified_date = False\<rparr>"
  obtain q w2 where q: "store_query w1 p = (q, w2)" by (cases "store_query w1 p")
  have run: "queryMemoById w i =
      (case q of
         Inl e \<Rightarrow> (Inr None, w2)
       | Inr None \<Rightarrow> (Inr None, w2)
       | Inr (Some rs) \<Rightarrow>
           (Inr (fst (first_row w2 rs)), snd (resultSet_close (snd (first_row w2 rs)))))"
    using assms q unfolding p_def
    by (simp add: queryMemoById_def case_prod_beta split: sum.splits option.splits)
  show "\<exists>found. fst (queryMemoById w i) = Inr found"
    by (simp add: run split: sum.splits option.splits)
  show "queryMemoById w i = (Inr None, after_call w1)" if "fst (platform_call w1) = Throws"
    using store_query_Throws [OF that, of p] q by (simp add: run)
  show "fst (queryMemoById w i) = Inr None" if e: "memo_table w = []"
  proof (cases q)
    case (Inl e)
    then show ?thesis by (simp add: run)
  next
    case (Inr resultSet)
    have "memo_table w1 = []" using e assms memo_table_getRdbStore [of w] by simp
    from store_query_empty_table [OF this] q Inr
    have "resultSet = None \<or> resultSet = Some []" by simp
    then show ?thesis using Inr by (auto simp: run first_row_def)
  qed
qed

text \<open>
  Claim C4, amended. Once \<open>getRdbStore\<close> has returned the store, the three read
  operations return a value whatever the platform calls after it do: no error reaches
  the caller. When \<open>store.query\<close> (the first platform call after the store is obtained)
  throws, \<open>queryAllMemos\<close> and \<open>queryMemosByTitle\<close> return the empty list and
  \<open>queryMemoById\<close> returns the absent value, the very values an empty table gives.
  (An error thrown by \<open>getRdbStore\<close> itself does reach the caller: see the
  counterexample.)
\<close>

theorem read_operations_absorb_query_faults:
  assumes "getRdbStore w = (Inr store, w1)"
  shows "(\<exists>memos. fst (queryAllMemos w) = Inr memos) \<and>
         (\<exists>memos. fst (queryMemosByTitle w keyword) = Inr memos) \<and>
         (\<exists>found. fst (queryMemoById w i) = Inr found) \<and>
         (fst (platform_call w1) = Throws \<longrightarrow>
            queryAllMemos w = (Inr [], after_call w1) \<and>
            queryMemosByTitle w keyword = (Inr [], after_call w1) \<and>
            queryMemoById w i = (Inr None, after_call w1)) \<and>
         (memo_table w = [] \<longrightarrow>
            fst (queryAllMemos w) = Inr [] \<and>
            fst (queryMemosByTitle w keyword) = Inr [] \<and>
            fst (queryMemoById w i) = Inr None)"
  using queryAllMemos_returns [OF assms] queryMemosByTitle_returns [OF assms, of keyword]
    queryMemoById_returns [OF assms, of i]
  by blast

theorem read_operations_absorb_query_faults_witness:
  "(let w = fresh_world\<lparr>rdbStore := Some 1, script := [(Throws, 3)],
              memo_table := [\<lparr>rid = 1, r_title = ''Alpha'', r_content = ''a'',
                               created_date = 3, modified_date = 4\<rparr>]\<rparr>
    in getRdbStore w = (Inr 1, w) \<and> fst (platform_call w) = Throws \<and>
       queryAllMemos w = (Inr [], after_call w) \<and>
       queryMemosByTitle w ''Al'' = (Inr [], after_call w) \<and>
       queryMemoById w 1 = (Inr None, after_call w)) \<and>
   (let w = fresh_world\<lparr>rdbStore := Some 1\<rparr>
    in getRdbStore w = (Inr 1, w) \<and> memo_table w = [] \<and>
       fst (queryAllMemos w) = Inr [] \<and>
       fst (queryMemosByTitle w ''Al'') = Inr [] \<and>
       fst (queryMemoById w 1) = Inr None)"
proof -
  define w where "w = fresh_world\<lparr>rdbStore := Some 1, script := [(Throws, 3)],
              memo_table := [\<lparr>rid = 1, r_title = ''Alpha'', r_content = ''a'',
                               created_date = 3, modified_date = 4\<rparr>]\<rparr>"
  define v where "v = fresh_world\<lparr>rdbStore := Some 1\<rparr>"
  have gw: "getRdbStore w = (Inr 1, w)"
    by (simp add: w_def getRdbStore_def getRdbStore_enter_def fresh_world_def)
  have tw: "fst (platform_call w) = Throws"
    by (simp add: w_def platform_call_def fresh_world_def)
  have gv: "getRdbStore v = (Inr 1, v)"
    by (simp add: v_def getRdbStore_def getRdbStore_enter_def fresh_world_def)
  have ev: "memo_table v = []"
    by (simp add: v_def fresh_world_def)
  from read_operations_absorb_query_faults [OF gw, of "''Al''" 1] tw
  have 1: "queryAllMemos w = (Inr [], after_call w) \<and>
       queryMemosByTitle w ''Al'' = (Inr [], after_call w) \<and>
       queryMemoById w 1 = (Inr None, after_call w)" by blast
  from read_operations_absorb_query_faults [OF gv, of "''Al''" 1] ev
  have 2: "fst (queryAllMemos v) = Inr [] \<and>
       fst (queryMemosByTitle v ''Al'') = Inr [] \<and>
       fst (queryMemoById v 1) = Inr None" by blast
  have A: "getRdbStore w = (Inr 1, w) \<and> fst (platform_call w) = Throws \<and>
       queryAllMemos w = (Inr [], after_call w) \<and>
       queryMemosByTitle w ''Al'' = (Inr [], after_call w) \<and>
       queryMemoById w 1 = (Inr None, after_call w)"
    using gw tw 1 by blast
  have B: "getRdbStore v = (Inr 1, v) \<and> memo_table v = [] \<and>
       fst (queryAllMemos v) = Inr [] \<and>
       fst (queryMemosByTitle v ''Al'') = Inr [] \<and>
       fst (queryMemoById v 1) = Inr None"
    using gv ev 2 by blast
  show ?thesis
    using A [unfolded w_def] B [unfolded v_def] unfolding Let_def by (rule conjI)
qed

theorem read_operations_raise_counterexample:
  "(let w = fresh_world\<lparr>script := [(Throws, 0)]\<rparr>
    in fst (queryAllMemos w) = Inl FailedToGetRdbStore \<and>
       fst (queryMemosByTitle w ''Al'') = Inl FailedToGetRdbStore \<and>
       fst (queryMemoById w 1) = Inl FailedToGetRdbStore)"
  by (simp add: dao_defs Let_def)










subsection \<open>Search by title\<close>

lemma like_match_percent:
  "like_match (CHR ''%'' # q) t \<longleftrightarrow> (\<exists>a b. t = a @ b \<and> like_match q b)"
proof (induction t)
  case Nil
  show ?case by simp
next
  case (Cons c cs)
  have "like_match (CHR ''%'' # q) (c # cs) \<longleftrightarrow>
          like_match q (c # cs) \<or> (\<exists>a b. cs = a @ b \<and> like_match q b)"
    using Cons.IH by simp
  also have "\<dots> \<longleftrightarrow> (\<exists>a b. c # cs = a @ b \<and> like_match q b)"
    by (auto simp: Cons_eq_append_conv)
  finally show ?case .
qed

lemma like_match_percent_only [simp]: "like_match [CHR ''%''] t"
  using like_match_percent [of "[]" t] by simp

lemma like_match_literal:
  assumes "wildcard_free k"
  shows "like_match (k @ q) t \<longleftrightarrow>
           (\<exists>a b. t = a @ b \<and> map ascii_lower a = map ascii_lower k \<and> like_match q b)"
  using assms
proof (induction k arbitrary: t)
  case Nil
  show ?case by simp
next
  case (Cons p ps)
  then have p: "p \<noteq> CHR ''%''" "p \<noteq> CHR ''_''" and ps: "wildcard_free ps"
    by (auto simp: wildcard_free_def)
  show ?case
  proof (cases t)
    case Nil
    then show ?thesis using p by simp
  next
    case (Cons c cs)
    have "like_match ((p # ps) @ q) (c # cs) \<longleftrightarrow>
            ascii_lower p = ascii_lower c \<and> like_match (ps @ q) cs"
      using p by simp
    also have "\<dots> \<longleftrightarrow> ascii_lower p = ascii_lower c \<and>
            (\<exists>a b. cs = a @ b \<and> map ascii_lower a = map ascii_lower ps \<and> like_match q b)"
      using Cons.IH [OF ps] by simp
    also have "\<dots> \<longleftrightarrow>
            (\<exists>a b. c # cs = a @ b \<and> map ascii_lower a = map ascii_lower (p # ps) \<and> like_match q b)"
    proof
      assume "ascii_lower p = ascii_lower c \<and>
            (\<exists>a b. cs = a @ b \<and> map ascii_lower a = map ascii_lower ps \<and> like_match q b)"
      then obtain a b where "ascii_lower p = ascii_lower c" "cs = a @ b"
        "map ascii_lower a = map ascii_lower ps" "like_match q b" by blast
      then have "c # cs = (c # a) @ b \<and> map ascii_lower (c # a) = map ascii_lower (p # ps) \<and>
                 like_match q b" by simp
      then show "\<exists>a b. c # cs = a @ b \<and> map ascii_lower a = map ascii_lower (p # ps) \<and>
                 like_match q b" by blast
    next
      assume "\<exists>a b. c # cs = a @ b \<and> map ascii_lower a = map ascii_lower (p # ps) \<and>
                 like_match q b"
      then obtain a b where ab: "c # cs = a @ b" "map ascii_lower a = map ascii_lower (p # ps)"
        "like_match q b" by blast
      from ab(2) obtain z zs where a: "a = z # zs" by (cases a) auto
      with ab have "z = c" "cs = zs @ b" "ascii_lower p = ascii_lower c"
        "map ascii_lower zs = map ascii_lower ps" by auto
      with ab(3) show "ascii_lower p = ascii_lower c \<and>
            (\<exists>a b. cs = a @ b \<and> map ascii_lower a = map ascii_lower ps \<and> like_match q b)"
        by blast
    qed
    finally show ?thesis using Cons by simp
  qed
qed

lemma like_match_keyword:
  assumes "wildcard_free keyword"
  shows "like_match (CHR ''%'' # keyword @ [CHR ''%'']) t \<longleftrightarrow> title_contains keyword t"
proof -
  have "like_match (CHR ''%'' # keyword @ [CHR ''%'']) t \<longleftrightarrow>
          (\<exists>a b. t = a @ b \<and> like_match (keyword @ [CHR ''%'']) b)"
    by (rule like_match_percent)
  also have "\<dots> \<longleftrightarrow>
          (\<exists>a m c. t = a @ m @ c \<and> map ascii_lower m = map ascii_lower keyword)"
    by (auto simp: like_match_literal [OF assms])
  also have "\<dots> \<longleftrightarrow> title_contains keyword t"
  proof
    assume "\<exists>a m c. t = a @ m @ c \<and> map ascii_lower m = map ascii_lower keyword"
    then obtain a m c where "t = a @ m @ c" "map ascii_lower m = map ascii_lower keyword"
      by blast
    then have "map ascii_lower t = map ascii_lower a @ map ascii_lower keyword @ map ascii_lower c"
      by simp
    then show "title_contains keyword t"
      unfolding title_contains_def sublist_def by blast
  next
    assume "title_contains keyword t"
    then obtain ps ss where "map ascii_lower t = ps @ map ascii_lower keyword @ ss"
      unfolding title_contains_def sublist_def by blast
    then have "\<exists>a r. t = a @ r \<and> ps = map ascii_lower a \<and>
                 map ascii_lower keyword @ ss = map ascii_lower r"
      by (simp only: map_eq_append_conv)
    then obtain a r where ar: "t = a @ r" "map ascii_lower r = map ascii_lower keyword @ ss"
      by auto
    from ar(2) have "\<exists>m c. r = m @ c \<and> map ascii_lower keyword = map ascii_lower m \<and>
                 ss = map ascii_lower c"
      by (simp only: map_eq_append_conv)
    then obtain m c where "r = m @ c" "map ascii_lower m = map ascii_lower keyword"
      by auto
    with ar show "\<exists>a m c. t = a @ m @ c \<and> map ascii_lower m = map ascii_lower keyword"
      by blast
  qed
  finally show ?thesis .
qed

lemma new_Memo_row [simp]:
  "new_Memo now (r_title r) (r_content r) (Some (rid r)) (Some (created_date r))
     (Some (modified_date r)) = row_memo r"
  by (simp add: new_Memo_def row_memo_def)

lemma read_rows_fault_free:
  "fault_free w \<Longrightarrow> fst (read_rows w rs acc) = acc @ map row_memo rs"
proof (induction rs arbitrary: w acc)
  case Nil
  show ?case by simp
next
  case (Cons r rs)
  have "read_row w r = (Inr (row_memo r), after_call w)"
    using Cons.prems by (simp add: read_row_def fault_free_call)
  then show ?case using Cons.IH [of "after_call w" "acc @ [row_memo r]"] Cons.prems by simp
qed

lemma parseResultSet_fault_free:
  assumes "fault_free w"
  shows "fst (parseResultSet w (Some rs)) = map row_memo rs"
proof (cases "rs = []")
  case True
  then show ?thesis by (simp add: parseResultSet_def parse_rows_def)
next
  case False
  have "goToFirstRow w = (Inr True, after_call w)"
    using assms by (simp add: goToFirstRow_def fault_free_call)
  then have "fst (parse_rows w rs) = map row_memo rs"
    using False assms read_rows_fault_free [of "after_call w" rs "[]"]
    by (simp add: parse_rows_def)
  then show ?thesis by (simp add: parseResultSet_def case_prod_beta)
qed

lemma query_fault_free:
  assumes "fault_free w"
  shows "\<exists>store w1 w2.
           getRdbStore w = (Inr store, w1) \<and>
           store_query w1 p = (Inr (Some (select_rows p (memo_table w))), w2) \<and> fault_free w2"
proof -
  from getRdbStore_fault_free [OF assms] obtain h w1 where
    g: "getRdbStore w = (Inr h, w1)" and ff1: "fault_free w1"
    and t1: "memo_table w1 = memo_table w" by blast
  have "store_query w1 p =
      (Inr (Some (select_rows p (memo_table w))),
       (after_call w1)\<lparr>cursors_opened := cursors_opened (after_call w1) + 1\<rparr>)"
    using ff1 t1 by (simp add: store_query_def fault_free_call)
  moreover have "fault_free ((after_call w1)\<lparr>cursors_opened := cursors_opened (after_call w1) + 1\<rparr>)"
    using ff1 by simp
  ultimately show ?thesis using g by blast
qed

lemma descending_select_rows:
  "sorted_wrt (\<lambda>a b. modifiedDate b \<le> modifiedDate a)
     (map row_memo (sort_key (\<lambda>r. - modified_date r) rows))"
proof -
  have "sorted (map (\<lambda>r. - modified_date r) (sort_key (\<lambda>r. - modified_date r) rows))"
    by (rule sorted_sort_key)
  then show ?thesis
    by (simp add: sorted_wrt_map row_memo_def)
qed

text \<open>
  Claim C7, amended. When no platform call fails, \<open>queryMemosByTitle\<close> with a non-empty
  keyword that contains neither \<open>%\<close> nor \<open>_\<close> returns exactly the stored notes whose title
  contains the keyword up to the case of ASCII letters, each as often as it is stored,
  in descending order of modified date. (In a keyword, \<open>%\<close> and \<open>_\<close> act as wildcards
  of \<open>LIKE\<close>: see the counterexample.)
\<close>

theorem queryMemosByTitle_matches:
  assumes "keyword \<noteq> []" and "wildcard_free keyword" and "fault_free w"
  shows "\<exists>found w'.
           queryMemosByTitle w keyword = (Inr found, w') \<and>
           mset found =
             mset (map row_memo
                     (filter (\<lambda>r. title_contains keyword (r_title r)) (memo_table w))) \<and>
           sorted_wrt (\<lambda>a b. modifiedDate b \<le> modifiedDate a) found"
proof -
  define p where "p = \<lparr>cond = Some (Like_title (CHR ''%'' # keyword @ [CHR ''%''])),
                      orderByDesc_modified_date = True\<rparr>"
  define hits where "hits = filter (\<lambda>r. title_contains keyword (r_title r)) (memo_table w)"
  have sat: "satisfies (cond p) = (\<lambda>r. title_contains keyword (r_title r))"
    by (rule ext) (simp add: p_def like_match_keyword [OF assms(2)])
  have sel: "select_rows p (memo_table w) = sort_key (\<lambda>r. - modified_date r) hits"
    by (simp add: select_rows_def sat hits_def) (simp add: p_def)
  from query_fault_free [OF assms(3), of p] obtain store w1 w2 where
    g: "getRdbStore w = (Inr store, w1)"
    and q: "store_query w1 p = (Inr (Some (select_rows p (memo_table w))), w2)"
    and ff2: "fault_free w2" by blast
  define found where "found = map row_memo (sort_key (\<lambda>r. - modified_date r) hits)"
  have "queryMemosByTitle w keyword =
          (Inr (fst (parseResultSet w2 (Some (select_rows p (memo_table w))))),
           snd (parseResultSet w2 (Some (select_rows p (memo_table w)))))"
    using assms(1) g q unfolding p_def
    by (simp add: queryMemosByTitle_def case_prod_beta)
  then have run: "queryMemosByTitle w keyword =
          (Inr found, snd (parseResultSet w2 (Some (select_rows p (memo_table w)))))"
    using parseResultSet_fault_free [OF ff2] by (simp add: sel found_def)
  have m: "mset found = mset (map row_memo hits)"
    by (simp add: found_def)
  have s: "sorted_wrt (\<lambda>a b. modifiedDate b \<le> modifiedDate a) found"
    unfolding found_def by (rule descending_select_rows)
  from run m s show ?thesis unfolding hits_def by blast
qed

theorem queryMemosByTitle_matches_witness:
  "''Alpha'' \<noteq> [] \<and> wildcard_free ''Alpha'' \<and> fault_free three_notes \<and>
   titles_of (fst (queryMemosByTitle three_notes ''Alpha'')) = [''Alphabet'', ''Alpha''] \<and>
   titles_of (fst (queryMemosByTitle three_notes ''alpha'')) = [''Alphabet'', ''Alpha''] \<and>
   (\<exists>found w'.
      queryMemosByTitle three_notes ''Alpha'' = (Inr found, w') \<and>
      mset found =
        mset (map row_memo
                (filter (\<lambda>r. title_contains ''Alpha'' (r_title r)) (memo_table three_notes))) \<and>
      sorted_wrt (\<lambda>a b. modifiedDate b \<le> modifiedDate a) found)"
proof -
  have k: "''Alpha'' \<noteq> []" by simp
  have wf: "wildcard_free ''Alpha''" by code_simp
  have ff: "fault_free three_notes" by code_simp
  have run: "titles_of (fst (queryMemosByTitle three_notes ''Alpha'')) = [''Alphabet'', ''Alpha''] \<and>
    titles_of (fst (queryMemosByTitle three_notes ''alpha'')) = [''Alphabet'', ''Alpha'']"
    by code_simp
  from k wf ff run queryMemosByTitle_matches [OF k wf ff] show ?thesis by blast
qed

theorem queryMemosByTitle_wildcard_counterexample:
  "titles_of (fst (queryMemosByTitle three_notes ''%'')) = [''Alphabet'', ''Beta'', ''Alpha''] \<and>
   \<not> sublist ''%'' ''Beta'' \<and>
   titles_of (fst (queryMemosByTitle three_notes ''B_ta'')) = [''Beta''] \<and>
   \<not> sublist ''B_ta'' ''Beta'' \<and>
   titles_of (fst (queryMemosByTitle three_notes ''alpha'')) = [''Alphabet'', ''Alpha''] \<and>
   \<not> sublist ''alpha'' ''Alpha''"
  by code_simp



text \<open>
  The view model trims the keyword before it calls the repository, so there a keyword
  of blanks only has the effect of the empty keyword.
\<close>

lemma trim_Nil [simp]: "trim [] = []"
  by (simp add: trim_def)

lemma trim_blank: "list_all is_space keyword \<Longrightarrow> trim keyword = []"
proof -
  assume "list_all is_space keyword"
  then have d: "dropWhile is_space keyword = []"
    by (simp add: dropWhile_eq_Nil_conv list_all_iff)
  show ?thesis unfolding trim_def d by simp
qed

lemma searchMemos_blank_keyword:
  assumes "trim keyword = []"
  shows "searchMemos vm keyword w = searchMemos vm [] w"
  using assms by (cases "vm_context vm") (simp_all add: searchMemos_def)

lemma trim_examples:
  "trim [CHR 0x20, CHR 0xA0, CHR 0x09] = [] \<and> trim '' Alpha beta  '' = ''Alpha beta'' \<and>
   titles_of (Inr (memos (fst (searchMemos (initialize new_MemoViewModel 0) [CHR 0xA0] three_notes))))
     = [''Alphabet'', ''Beta'', ''Alpha'']"
  by code_simp

subsection \<open>The memoised handles\<close>

lemma getRdbStore_Inr:
  assumes "getRdbStore w = (Inr h, w1)"
  shows "rdbStore w1 = Some h" and "opens w1 \<le> opens w + 1"
  using assms
  by (auto simp: getRdbStore_def getRdbStore_enter_def getRdbStore_resume_def
           split: option.splits prod.splits outcome.splits dest!: platform_callD)

lemma getPreferences_memoised:
  "prefInstance w = Some p \<Longrightarrow> getPreferences w = (Inr p, w)"
  by (simp add: getPreferences_def getPreferences_enter_def)

lemma getPreferences_Inr:
  assumes "getPreferences w = (Inr p, w1)"
  shows "prefInstance w1 = Some p" and "pref_opens w1 \<le> pref_opens w + 1"
  using assms
  by (auto simp: getPreferences_def getPreferences_enter_def getPreferences_resume_def
           split: option.splits prod.splits outcome.splits dest!: platform_callD)

lemma in_turn_fixed:
  assumes "f w = (r, w)"
  shows "in_turn f n w = (replicate n r, w)"
  using assms by (induction n) simp_all

text \<open>One caller alone, entering and then resuming, is the method itself.\<close>

lemma race_one_caller:
  "race_run \<lparr>rw = w, callers = [NotEntered]\<rparr> [Enter 0, Resume 0] =
     \<lparr>rw = snd (getRdbStore w), callers = [Resolved (fst (getRdbStore w))]\<rparr>"
  by (cases "rdbStore w")
     (simp_all add: race_run_def getRdbStore_def getRdbStore_enter_def case_prod_beta)

lemma pref_race_one_caller:
  "pref_race_run \<lparr>rw = w, callers = [NotEntered]\<rparr> [Enter 0, Resume 0] =
     \<lparr>rw = snd (getPreferences w), callers = [Resolved (fst (getPreferences w))]\<rparr>"
  by (cases "prefInstance w")
     (simp_all add: pref_race_run_def getPreferences_def getPreferences_enter_def case_prod_beta)

text \<open>What a caller's two steps do, whatever the other callers are doing.\<close>

lemma race_step_Enter:
  assumes "k < length (callers r)" and "callers r ! k = NotEntered"
  shows "race_step r (Enter k) =
     (case rdbStore (rw r) of
        Some h \<Rightarrow> r\<lparr>callers := (callers r)[k := Resolved (Inr h)]\<rparr>
      | None \<Rightarrow>
          r\<lparr>rw := (rw r)\<lparr>opens := opens (rw r) + 1\<rparr>,
            callers := (callers r)[k := AwaitingOpen (opens (rw r) + 1)]\<rparr>)"
  using assms by (simp add: getRdbStore_enter_def split: option.splits)

lemma race_step_Resume:
  assumes "k < length (callers r)" and "callers r ! k = AwaitingOpen h"
  shows "race_step r (Resume k) =
     (if fst (platform_call (rw r)) = Throws
      then r\<lparr>rw := after_call (rw r),
             callers := (callers r)[k := Resolved (Inl FailedToGetRdbStore)]\<rparr>
      else r\<lparr>rw := (after_call (rw r))\<lparr>rdbStore := Some h\<rparr>,
             callers := (callers r)[k := Resolved (Inr h)]\<rparr>)"
proof -
  obtain oc w1 where pc: "platform_call (rw r) = (oc, w1)" by (cases "platform_call (rw r)")
  then have w1: "w1 = after_call (rw r)" by (rule platform_callD)
  show ?thesis using assms pc w1 by (cases oc) (simp_all add: getRdbStore_resume_def)
qed

lemma pref_race_step_Enter:
  assumes "k < length (callers r)" and "callers r ! k = NotEntered"
  shows "pref_race_step r (Enter k) =
     (case prefInstance (rw r) of
        Some p \<Rightarrow> r\<lparr>callers := (callers r)[k := Resolved (Inr p)]\<rparr>
      | None \<Rightarrow>
          r\<lparr>rw := (rw r)\<lparr>pref_opens := pref_opens (rw r) + 1\<rparr>,
            callers := (callers r)[k := AwaitingOpen (pref_opens (rw r) + 1)]\<rparr>)"
  using assms by (simp add: getPreferences_enter_def split: option.splits)

lemma pref_race_step_Resume:
  assumes "k < length (callers r)" and "callers r ! k = AwaitingOpen p"
  shows "pref_race_step r (Resume k) =
     (if fst (platform_call (rw r)) = Throws
      then r\<lparr>rw := after_call (rw r),
             callers := (callers r)[k := Resolved (Inl FailedToGetPreferences)]\<rparr>
      else r\<lparr>rw := (after_call (rw r))\<lparr>prefInstance := Some p\<rparr>,
             callers := (callers r)[k := Resolved (Inr p)]\<rparr>)"
proof -
  obtain oc w1 where pc: "platform_call (rw r) = (oc, w1)" by (cases "platform_call (rw r)")
  then have w1: "w1 = after_call (rw r)" by (rule platform_callD)
  show ?thesis using assms pc w1 by (cases oc) (simp_all add: getPreferences_resume_def)
qed

text \<open>
  \<open>c\<close> first calls that all enter before any of them resumes: each issues an open.
\<close>

lemma race_all_enter_upto:
  assumes "rdbStore w = None" and "m \<le> c"
  shows "race_run \<lparr>rw = w, callers = replicate c NotEntered\<rparr> (map Enter [0..<m]) =
           \<lparr>rw = w\<lparr>opens := opens w + m\<rparr>,
            callers = map (\<lambda>k. AwaitingOpen (opens w + k + 1)) [0..<m] @
                      replicate (c - m) NotEntered\<rparr>"
  using assms(2)
proof (induction m)
  case 0
  show ?case by (simp add: race_run_def)
next
  case (Suc m)
  define xs where "xs = map (\<lambda>k. AwaitingOpen (opens w + k + 1)) [0..<m]"
  define r where "r = \<lparr>rw = w\<lparr>opens := opens w + m\<rparr>,
                        callers = xs @ replicate (c - m) NotEntered\<rparr>"
  have len: "length xs = m" by (simp add: xs_def)
  have rest: "replicate (c - m) NotEntered = NotEntered # replicate (c - Suc m) NotEntered"
    using Suc.prems by (cases "c - m") simp_all
  have prev: "race_run \<lparr>rw = w, callers = replicate c NotEntered\<rparr> (map Enter [0..<m]) = r"
    using Suc by (simp add: r_def xs_def)
  have k: "m < length (callers r)" "callers r ! m = NotEntered"
    using Suc.prems len by (simp_all add: r_def nth_append rest)
  have none: "rdbStore (rw r) = None" using assms(1) by (simp add: r_def)
  have "race_step r (Enter m) =
          \<lparr>rw = w\<lparr>opens := opens w + Suc m\<rparr>,
           callers = (xs @ [AwaitingOpen (opens w + m + 1)]) @ replicate (c - Suc m) NotEntered\<rparr>"
    using len assms(1)
    by (subst race_step_Enter [OF k]) (simp add: r_def rest list_update_append)
  moreover have "race_run \<lparr>rw = w, callers = replicate c NotEntered\<rparr> (map Enter [0..<Suc m]) =
          race_step r (Enter m)"
    using prev by (simp add: race_run_def)
  ultimately show ?case by (simp add: xs_def)
qed

lemma pref_race_all_enter_upto:
  assumes "prefInstance w = None" and "m \<le> c"
  shows "pref_race_run \<lparr>rw = w, callers = replicate c NotEntered\<rparr> (map Enter [0..<m]) =
           \<lparr>rw = w\<lparr>pref_opens := pref_opens w + m\<rparr>,
            callers = map (\<lambda>k. AwaitingOpen (pref_opens w + k + 1)) [0..<m] @
                      replicate (c - m) NotEntered\<rparr>"
  using assms(2)
proof (induction m)
  case 0
  show ?case by (simp add: pref_race_run_def)
next
  case (Suc m)
  define xs where "xs = map (\<lambda>k. AwaitingOpen (pref_opens w + k + 1)) [0..<m]"
  define r where "r = \<lparr>rw = w\<lparr>pref_opens := pref_opens w + m\<rparr>,
                        callers = xs @ replicate (c - m) NotEntered\<rparr>"
  have len: "length xs = m" by (simp add: xs_def)
  have rest: "replicate (c - m) NotEntered = NotEntered # replicate (c - Suc m) NotEntered"
    using Suc.prems by (cases "c - m") simp_all
  have prev: "pref_race_run \<lparr>rw = w, callers = replicate c NotEntered\<rparr> (map Enter [0..<m]) = r"
    using Suc by (simp add: r_def xs_def)
  have k: "m < length (callers r)" "callers r ! m = NotEntered"
    using Suc.prems len by (simp_all add: r_def nth_append rest)
  have none: "prefInstance (rw r) = None" using assms(1) by (simp add: r_def)
  have "pref_race_step r (Enter m) =
          \<lparr>rw = w\<lparr>pref_opens := pref_opens w + Suc m\<rparr>,
           callers = (xs @ [AwaitingOpen (pref_opens w + m + 1)]) @ replicate (c - Suc m) NotEntered\<rparr>"
    using len assms(1)
    by (subst pref_race_step_Enter [OF k]) (simp add: r_def rest list_update_append)
  moreover have "pref_race_run \<lparr>rw = w, callers = replicate c NotEntered\<rparr> (map Enter [0..<Suc m]) =
          pref_race_step r (Enter m)"
    using prev by (simp add: pref_race_run_def)
  ultimately show ?case by (simp add: xs_def)
qed

text \<open>
  Claim C5, amended. A call of \<open>getRdbStore\<close> (of \<open>getPreferences\<close>) that succeeds
  leaves the handle memoised and issues at most one open; any number of calls made one
  after another from there return that same handle and change nothing, so they do not
  reopen. When calls overlap, a call that enters while a handle is memoised returns it
  at once and opens nothing; a call that enters while none is memoised issues an open of
  its own, and when it resumes it returns the handle of that open, which it memoises, or
  the failure of that open, which it does not memoise; no step of one caller changes the
  state of another. So \<open>c\<close> first calls that all enter before any of them resumes
  issue \<open>c\<close> opens. All of this holds for the storage handle and for the preference
  handle alike.
\<close>

theorem handle_memoised_after_success:
  "(getRdbStore w = (Inr h, w1) \<longrightarrow>
      rdbStore w1 = Some h \<and> opens w1 \<le> opens w + 1 \<and>
      in_turn getRdbStore n w1 = (replicate n (Inr h), w1)) \<and>
   (getPreferences w = (Inr p, w2) \<longrightarrow>
      prefInstance w2 = Some p \<and> pref_opens w2 \<le> pref_opens w + 1 \<and>
      in_turn getPreferences n w2 = (replicate n (Inr p), w2)) \<and>
   (k < length (callers r) \<and> callers r ! k = NotEntered \<longrightarrow>
      race_step r (Enter k) =
        (case rdbStore (rw r) of
           Some h' \<Rightarrow> r\<lparr>callers := (callers r)[k := Resolved (Inr h')]\<rparr>
         | None \<Rightarrow>
             r\<lparr>rw := (rw r)\<lparr>opens := opens (rw r) + 1\<rparr>,
               callers := (callers r)[k := AwaitingOpen (opens (rw r) + 1)]\<rparr>) \<and>
      pref_race_step r (Enter k) =
        (case prefInstance (rw r) of
           Some p' \<Rightarrow> r\<lparr>callers := (callers r)[k := Resolved (Inr p')]\<rparr>
         | None \<Rightarrow>
             r\<lparr>rw := (rw r)\<lparr>pref_opens := pref_opens (rw r) + 1\<rparr>,
               callers := (callers r)[k := AwaitingOpen (pref_opens (rw r) + 1)]\<rparr>)) \<and>
   (k < length (callers r) \<and> callers r ! k = AwaitingOpen a \<longrightarrow>
      race_step r (Resume k) =
        (if fst (platform_call (rw r)) = Throws
         then r\<lparr>rw := after_call (rw r),
                callers := (callers r)[k := Resolved (Inl FailedToGetRdbStore)]\<rparr>
         else r\<lparr>rw := (after_call (rw r))\<lparr>rdbStore := Some a\<rparr>,
                callers := (callers r)[k := Resolved (Inr a)]\<rparr>) \<and>
      pref_race_step r (Resume k) =
        (if fst (platform_call (rw r)) = Throws
         then r\<lparr>rw := after_call (rw r),
                callers := (callers r)[k := Resolved (Inl FailedToGetPreferences)]\<rparr>
         else r\<lparr>rw := (after_call (rw r))\<lparr>prefInstance := Some a\<rparr>,
                callers := (callers r)[k := Resolved (Inr a)]\<rparr>)) \<and>
   (rdbStore w = None \<longrightarrow>
      race_run \<lparr>rw = w, callers = replicate c NotEntered\<rparr> (map Enter [0..<c]) =
        \<lparr>rw = w\<lparr>opens := opens w + c\<rparr>,
         callers = map (\<lambda>j. AwaitingOpen (opens w + j + 1)) [0..<c]\<rparr>) \<and>
   (prefInstance w = None \<longrightarrow>
      pref_race_run \<lparr>rw = w, callers = replicate c NotEntered\<rparr> (map Enter [0..<c]) =
        \<lparr>rw = w\<lparr>pref_opens := pref_opens w + c\<rparr>,
         callers = map (\<lambda>j. AwaitingOpen (pref_opens w + j + 1)) [0..<c]\<rparr>)"
proof (intro conjI impI)
  assume g: "getRdbStore w = (Inr h, w1)"
  show "rdbStore w1 = Some h" by (rule getRdbStore_Inr(1) [OF g])
  show "opens w1 \<le> opens w + 1" by (rule getRdbStore_Inr(2) [OF g])
  show "in_turn getRdbStore n w1 = (replicate n (Inr h), w1)"
    by (rule in_turn_fixed) (rule getRdbStore_memoised [OF getRdbStore_Inr(1) [OF g]])
next
  assume g: "getPreferences w = (Inr p, w2)"
  show "prefInstance w2 = Some p" by (rule getPreferences_Inr(1) [OF g])
  show "pref_opens w2 \<le> pref_opens w + 1" by (rule getPreferences_Inr(2) [OF g])
  show "in_turn getPreferences n w2 = (replicate n (Inr p), w2)"
    by (rule in_turn_fixed) (rule getPreferences_memoised [OF getPreferences_Inr(1) [OF g]])
next
  assume e: "k < length (callers r) \<and> callers r ! k = NotEntered"
  show "race_step r (Enter k) =
        (case rdbStore (rw r) of
           Some h' \<Rightarrow> r\<lparr>callers := (callers r)[k := Resolved (Inr h')]\<rparr>
         | None \<Rightarrow>
             r\<lparr>rw := (rw r)\<lparr>opens := opens (rw r) + 1\<rparr>,
               callers := (callers r)[k := AwaitingOpen (opens (rw r) + 1)]\<rparr>)"
    using e by (intro race_step_Enter) simp_all
  show "pref_race_step r (Enter k) =
        (case prefInstance (rw r) of
           Some p' \<Rightarrow> r\<lparr>callers := (callers r)[k := Resolved (Inr p')]\<rparr>
         | None \<Rightarrow>
             r\<lparr>rw := (rw r)\<lparr>pref_opens := pref_opens (rw r) + 1\<rparr>,
               callers := (callers r)[k := AwaitingOpen (pref_opens (rw r) + 1)]\<rparr>)"
    using e by (intro pref_race_step_Enter) simp_all
next
  assume a: "k < length (callers r) \<and> callers r ! k = AwaitingOpen a"
  show "race_step r (Resume k) =
        (if fst (platform_call (rw r)) = Throws
         then r\<lparr>rw := after_call (rw r),
                callers := (callers r)[k := Resolved (Inl FailedToGetRdbStore)]\<rparr>
         else r\<lparr>rw := (after_call (rw r))\<lparr>rdbStore := Some a\<rparr>,
                callers := (callers r)[k := Resolved (Inr a)]\<rparr>)"
    using a by (intro race_step_Resume) simp_all
  show "pref_race_step r (Resume k) =
        (if fst (platform_call (rw r)) = Throws
         then r\<lparr>rw := after_call (rw r),
                callers := (callers r)[k := Resolved (Inl FailedToGetPreferences)]\<rparr>
         else r\<lparr>rw := (after_call (rw r))\<lparr>prefInstance := Some a\<rparr>,
                callers := (callers r)[k := Resolved (Inr a)]\<rparr>)"
    using a by (intro pref_race_step_Resume) simp_all
next
  assume "rdbStore w = None"
  from race_all_enter_upto [OF this, of c c]
  show "race_run \<lparr>rw = w, callers = replicate c NotEntered\<rparr> (map Enter [0..<c]) =
        \<lparr>rw = w\<lparr>opens := opens w + c\<rparr>,
         callers = map (\<lambda>j. AwaitingOpen (opens w + j + 1)) [0..<c]\<rparr>"
    by simp
next
  assume "prefInstance w = None"
  from pref_race_all_enter_upto [OF this, of c c]
  show "pref_race_run \<lparr>rw = w, callers = replicate c NotEntered\<rparr> (map Enter [0..<c]) =
        \<lparr>rw = w\<lparr>pref_opens := pref_opens w + c\<rparr>,
         callers = map (\<lambda>j. AwaitingOpen (pref_opens w + j + 1)) [0..<c]\<rparr>"
    by simp
qed

theorem handle_memoised_after_success_witness:
  "getRdbStore fresh_world = (Inr 1, fresh_world\<lparr>rdbStore := Some 1, opens := 1\<rparr>) \<and>
   in_turn getRdbStore 3 (fresh_world\<lparr>rdbStore := Some 1, opens := 1\<rparr>) =
     ([Inr 1, Inr 1, Inr 1], fresh_world\<lparr>rdbStore := Some 1, opens := 1\<rparr>) \<and>
   getPreferences fresh_world = (Inr 1, fresh_world\<lparr>prefInstance := Some 1, pref_opens := 1\<rparr>) \<and>
   in_turn getPreferences 3 (fresh_world\<lparr>prefInstance := Some 1, pref_opens := 1\<rparr>) =
     ([Inr 1, Inr 1, Inr 1], fresh_world\<lparr>prefInstance := Some 1, pref_opens := 1\<rparr>) \<and>
   race_step \<lparr>rw = three_notes, callers = [NotEntered]\<rparr> (Enter 0) =
     \<lparr>rw = three_notes, callers = [Resolved (Inr 1)]\<rparr> \<and>
   pref_race_step \<lparr>rw = three_notes, callers = [NotEntered]\<rparr> (Enter 0) =
     \<lparr>rw = three_notes\<lparr>pref_opens := 1\<rparr>, callers = [AwaitingOpen 1]\<rparr> \<and>
   race_step \<lparr>rw = fresh_world\<lparr>opens := 2, script := [(Throws, 5)]\<rparr>,
              callers = [AwaitingOpen 1, AwaitingOpen 2]\<rparr> (Resume 1) =
     \<lparr>rw = fresh_world\<lparr>opens := 2, clock := 5\<rparr>,
      callers = [AwaitingOpen 1, Resolved (Inl FailedToGetRdbStore)]\<rparr> \<and>
   pref_race_step \<lparr>rw = fresh_world\<lparr>pref_opens := 2\<rparr>,
              callers = [AwaitingOpen 1, AwaitingOpen 2]\<rparr> (Resume 1) =
     \<lparr>rw = fresh_world\<lparr>pref_opens := 2, prefInstance := Some 2\<rparr>,
      callers = [AwaitingOpen 1, Resolved (Inr 2)]\<rparr> \<and>
   race_run \<lparr>rw = fresh_world, callers = replicate 3 NotEntered\<rparr> (map Enter [0..<3]) =
     \<lparr>rw = fresh_world\<lparr>opens := 3\<rparr>,
      callers = [AwaitingOpen 1, AwaitingOpen 2, AwaitingOpen 3]\<rparr> \<and>
   pref_race_run \<lparr>rw = fresh_world, callers = replicate 3 NotEntered\<rparr> (map Enter [0..<3]) =
     \<lparr>rw = fresh_world\<lparr>pref_opens := 3\<rparr>,
      callers = [AwaitingOpen 1, AwaitingOpen 2, AwaitingOpen 3]\<rparr>"
proof -
  define w1 where "w1 = fresh_world\<lparr>rdbStore := Some 1, opens := 1\<rparr>"
  define w2 where "w2 = fresh_world\<lparr>prefInstance := Some 1, pref_opens := 1\<rparr>"
  define r1 where "r1 = \<lparr>rw = three_notes, callers = [NotEntered]\<rparr>"
  define r2 where "r2 = \<lparr>rw = fresh_world\<lparr>opens := 2, script := [(Throws, 5)]\<rparr>,
                         callers = [AwaitingOpen 1, AwaitingOpen 2]\<rparr>"
  define r3 where "r3 = \<lparr>rw = fresh_world\<lparr>pref_opens := 2\<rparr>,
                         callers = [AwaitingOpen 1, AwaitingOpen 2]\<rparr>"
  have g: "getRdbStore fresh_world = (Inr 1, w1)"
    by (simp add: w1_def getRdbStore_def getRdbStore_enter_def getRdbStore_resume_def
        platform_call_def fresh_world_def)
  have p: "getPreferences fresh_world = (Inr 1, w2)"
    by (simp add: w2_def getPreferences_def getPreferences_enter_def getPreferences_resume_def
        platform_call_def fresh_world_def)
  have A: "in_turn getRdbStore 3 w1 = ([Inr 1, Inr 1, Inr 1], w1)"
    using g handle_memoised_after_success [where w = fresh_world and h = 1 and ?w1.0 = w1 and n = 3]
    by (simp add: numeral_3_eq_3)
  have B: "in_turn getPreferences 3 w2 = ([Inr 1, Inr 1, Inr 1], w2)"
    using p handle_memoised_after_success [where w = fresh_world and p = 1 and ?w2.0 = w2 and n = 3]
    by (simp add: numeral_3_eq_3)
  have k1: "0 < length (callers r1) \<and> callers r1 ! 0 = NotEntered" by (simp add: r1_def)
  have s1: "rdbStore (rw r1) = Some 1" "prefInstance (rw r1) = None"
    by (simp_all add: r1_def three_notes_def fresh_world_def)
  have C: "race_step r1 (Enter 0) = \<lparr>rw = three_notes, callers = [Resolved (Inr 1)]\<rparr>"
    using k1 s1 handle_memoised_after_success [where k = 0 and r = r1]
    by (simp add: r1_def)
  have D: "pref_race_step r1 (Enter 0) =
      \<lparr>rw = three_notes\<lparr>pref_opens := 1\<rparr>, callers = [AwaitingOpen 1]\<rparr>"
    using k1 s1 handle_memoised_after_success [where k = 0 and r = r1]
    by (simp add: r1_def three_notes_def fresh_world_def)
  have k2: "1 < length (callers r2) \<and> callers r2 ! 1 = AwaitingOpen 2" by (simp add: r2_def)
  have t2: "fst (platform_call (rw r2)) = Throws"
    "after_call (rw r2) = fresh_world\<lparr>opens := 2, clock := 5\<rparr>"
    by (simp_all add: r2_def after_call_def platform_call_def fresh_world_def)
  have E: "race_step r2 (Resume 1) =
      \<lparr>rw = fresh_world\<lparr>opens := 2, clock := 5\<rparr>,
       callers = [AwaitingOpen 1, Resolved (Inl FailedToGetRdbStore)]\<rparr>"
    using k2 t2 handle_memoised_after_success [where k = 1 and r = r2 and a = 2]
    by (simp add: r2_def)
  have k3: "1 < length (callers r3) \<and> callers r3 ! 1 = AwaitingOpen 2" by (simp add: r3_def)
  have t3: "fst (platform_call (rw r3)) \<noteq> Throws" "after_call (rw r3) = fresh_world\<lparr>pref_opens := 2\<rparr>"
    by (simp_all add: r3_def after_call_def platform_call_def fresh_world_def)
  have F: "pref_race_step r3 (Resume 1) =
      \<lparr>rw = fresh_world\<lparr>pref_opens := 2, prefInstance := Some 2\<rparr>,
       callers = [AwaitingOpen 1, Resolved (Inr 2)]\<rparr>"
    using k3 t3 handle_memoised_after_success [where k = 1 and r = r3 and a = 2]
    by (simp add: r3_def)
  have n0: "rdbStore fresh_world = None" "prefInstance fresh_world = None"
    "opens fresh_world = 0" "pref_opens fresh_world = 0"
    by (simp_all add: fresh_world_def)
  have u: "[0..<3] = [0, 1, 2]" by (simp add: upt_rec)
  have G: "race_run \<lparr>rw = fresh_world, callers = replicate 3 NotEntered\<rparr> (map Enter [0..<3]) =
     \<lparr>rw = fresh_world\<lparr>opens := 3\<rparr>,
      callers = [AwaitingOpen 1, AwaitingOpen 2, AwaitingOpen 3]\<rparr>"
    using n0 handle_memoised_after_success [where w = fresh_world and c = 3]
    by (simp add: u)
  have H: "pref_race_run \<lparr>rw = fresh_world, callers = replicate 3 NotEntered\<rparr> (map Enter [0..<3]) =
     \<lparr>rw = fresh_world\<lparr>pref_opens := 3\<rparr>,
      callers = [AwaitingOpen 1, AwaitingOpen 2, AwaitingOpen 3]\<rparr>"
    using n0 handle_memoised_after_success [where w = fresh_world and c = 3]
    by (simp add: u)
  from g A p B C D E F G H show ?thesis
    unfolding w1_def w2_def r1_def r2_def r3_def by blast
qed

theorem overlapping_first_calls_counterexample:
  "(let r = race_run \<lparr>rw = fresh_world, callers = [NotEntered, NotEntered]\<rparr>
              [Enter 0, Enter 1, Resume 0, Resume 1]
    in opens (rw r) = 2 \<and> callers r = [Resolved (Inr 1), Resolved (Inr 2)] \<and>
       rdbStore (rw r) = Some 2) \<and>
   (let r = pref_race_run \<lparr>rw = fresh_world, callers = [NotEntered, NotEntered]\<rparr>
              [Enter 0, Enter 1, Resume 0, Resume 1]
    in pref_opens (rw r) = 2 \<and> callers r = [Resolved (Inr 1), Resolved (Inr 2)] \<and>
       prefInstance (rw r) = Some 2)"
  by (simp add: race_run_def pref_race_run_def getRdbStore_enter_def getRdbStore_resume_def
      getPreferences_enter_def getPreferences_resume_def platform_call_def fresh_world_def
      Let_def)

end
